theory Spec2Isabelle
  imports Complex_Main "HOL-Library.Sublist" "HOL-Library.AList"
begin

section \<open>Strings and post records\<close>

text \<open>
  A JavaScript string is a sequence of UTF-16 code units; a code unit is modelled as a
  natural number. \<open>js\<close> turns an ASCII literal into its code units.
\<close>

type_synonym ustring = "nat list"

definition js :: "string \<Rightarrow> ustring" where
  "js s = map of_char s"

text \<open>
  The values of the JavaScript numbers that occur below: an integer, \<open>NaN\<close> or
  \<open>+Infinity\<close> (the last two arise only from a division by zero).
\<close>

datatype num = Num int | NaN | PosInf

text \<open>Truthiness of a number: \<open>0\<close> and \<open>NaN\<close> are falsy.\<close>

fun truthyNum :: "num option \<Rightarrow> bool" where
  "truthyNum None = False"
| "truthyNum (Some (Num n)) = (n \<noteq> 0)"
| "truthyNum (Some NaN) = False"
| "truthyNum (Some PosInf) = True"

text \<open>
  \<open>PostAuthor\<close>, \<open>PostMetadata\<close> and \<open>ProcessedPost\<close> of \<open>blogUtils.ts\<close>. A field that
  may be absent at run time (\<open>undefined\<close>) is an option. The fields \<open>featured\<close>,
  \<open>image\<close> and \<open>thumbnail\<close> are read by none of the functions below and are left out.
  \<open>fmFields\<close> is a partial \<open>PostMetadata\<close> without the \<open>i18n\<close> map: the value type of
  \<open>I18nData\<close> (an override's own \<open>i18n\<close> entry is always overwritten when it is merged).
\<close>

record postAuthor =
  name :: ustring
  avatar :: "ustring option"
  url :: "ustring option"

record fmFields =
  title :: "ustring option"
  date :: "ustring option"
  slug :: "ustring option"
  categories :: "ustring list option"
  category :: "ustring option"
  tags :: "ustring list option"
  excerpt :: "ustring option"
  author :: "postAuthor option"
  readTime :: "num option"
  updated :: "ustring option"

record postMetadata = fmFields +
  i18n :: "(ustring \<times> fmFields) list option"

record processedPost =
  fm :: postMetadata
  post_date :: "ustring option"
  urlPath :: "ustring option"
  path :: "ustring option"
  content :: "ustring option"
  lang :: "ustring option"

text \<open>Truthiness of an optional string: \<open>undefined\<close> and \<open>''\<close> are falsy.\<close>

fun truthy :: "ustring option \<Rightarrow> bool" where
  "truthy None = False"
| "truthy (Some s) = (s \<noteq> [])"

section \<open>Taxonomy filters\<close>

text \<open>\<open>xs?.some(p)\<close> and \<open>Array.isArray(xs) && xs.some(p)\<close>: falsy when the array is absent.\<close>

fun some_opt :: "('a \<Rightarrow> bool) \<Rightarrow> 'a list option \<Rightarrow> bool" where
  "some_opt p None = False"
| "some_opt p (Some xs) = list_ex p xs"

definition filterPostsByCategory ::
  "processedPost list \<Rightarrow> ustring \<Rightarrow> (ustring \<Rightarrow> ustring) \<Rightarrow> processedPost list" where
  "filterPostsByCategory posts categorySlug slugifyFn =
     filter (\<lambda>post.
       let hasMatchingCategoryArray =
             some_opt (\<lambda>cat. slugifyFn cat = categorySlug) (categories (fm post));
           hasMatchingSingularCategory =
             (case category (fm post) of
                None \<Rightarrow> False
              | Some c \<Rightarrow> slugifyFn c = categorySlug);
           isTagOnly =
             (some_opt (\<lambda>tag. slugifyFn tag = categorySlug) (tags (fm post)) \<and>
              \<not> hasMatchingCategoryArray \<and> \<not> hasMatchingSingularCategory)
       in (hasMatchingCategoryArray \<or> hasMatchingSingularCategory) \<and> \<not> isTagOnly) posts"

definition filterPostsByTag ::
  "processedPost list \<Rightarrow> ustring \<Rightarrow> (ustring \<Rightarrow> ustring) \<Rightarrow> processedPost list" where
  "filterPostsByTag posts tagSlug slugifyFn =
     filter (\<lambda>post.
       let hasMatchingTag = some_opt (\<lambda>tag. slugifyFn tag = tagSlug) (tags (fm post));
           isCategoryOnly =
             ((some_opt (\<lambda>cat. slugifyFn cat = tagSlug) (categories (fm post)) \<and>
               \<not> some_opt (\<lambda>tag. slugifyFn tag = tagSlug) (tags (fm post))) \<or>
              ((case category (fm post) of
                  None \<Rightarrow> False
                | Some c \<Rightarrow> slugifyFn c = tagSlug) \<and>
               \<not> some_opt (\<lambda>tag. slugifyFn tag = tagSlug) (tags (fm post))))
       in hasMatchingTag \<and> \<not> isCategoryOnly) posts"

text \<open>
  The readings of the specification: a post is in a category when an entry of its
  \<open>categories\<close> array or its singular \<open>category\<close> field slugifies to the slug, and carries
  a tag when an entry of its \<open>tags\<close> array does.
\<close>

definition inCategory :: "(ustring \<Rightarrow> ustring) \<Rightarrow> ustring \<Rightarrow> processedPost \<Rightarrow> bool" where
  "inCategory slugifyFn s post =
     ((\<exists>cs. categories (fm post) = Some cs \<and> (\<exists>c. c \<in> set cs \<and> slugifyFn c = s)) \<or>
      (\<exists>c. category (fm post) = Some c \<and> slugifyFn c = s))"

definition hasTag :: "(ustring \<Rightarrow> ustring) \<Rightarrow> ustring \<Rightarrow> processedPost \<Rightarrow> bool" where
  "hasTag slugifyFn s post =
     (\<exists>ts. tags (fm post) = Some ts \<and> (\<exists>t. t \<in> set ts \<and> slugifyFn t = s))"

text \<open>The filters with their exclusion clause deleted.\<close>

definition filterPostsByCategory_simplified ::
  "processedPost list \<Rightarrow> ustring \<Rightarrow> (ustring \<Rightarrow> ustring) \<Rightarrow> processedPost list" where
  "filterPostsByCategory_simplified posts categorySlug slugifyFn =
     filter (\<lambda>post.
       some_opt (\<lambda>cat. slugifyFn cat = categorySlug) (categories (fm post)) \<or>
       (case category (fm post) of None \<Rightarrow> False | Some c \<Rightarrow> slugifyFn c = categorySlug)) posts"

definition filterPostsByTag_simplified ::
  "processedPost list \<Rightarrow> ustring \<Rightarrow> (ustring \<Rightarrow> ustring) \<Rightarrow> processedPost list" where
  "filterPostsByTag_simplified posts tagSlug slugifyFn =
     filter (\<lambda>post. some_opt (\<lambda>tag. slugifyFn tag = tagSlug) (tags (fm post))) posts"

text \<open>Posts of the test suite: a category in the array, and the same term as a tag only.\<close>

definition emptyFm :: postMetadata where
  "emptyFm = \<lparr>title = None, date = None, slug = None, categories = None, category = None,
     tags = None, excerpt = None, author = None, readTime = None, updated = None,
     i18n = None\<rparr>"

definition mkPost :: "postMetadata \<Rightarrow> processedPost" where
  "mkPost m = \<lparr>fm = m, post_date = date m, urlPath = Some (js ''/2024/01/test-post''),
     path = Some (js ''/content/Blog/2024/01/test-post.md''), content = Some [], lang = None\<rparr>"

definition catPost :: processedPost where
  "catPost = mkPost (emptyFm\<lparr>title := Some (js ''Post 1''), date := Some (js ''2024-01-15''),
     categories := Some [js ''javascript'']\<rparr>)"

definition tagPost :: processedPost where
  "tagPost = mkPost (emptyFm\<lparr>title := Some (js ''Post 4''), date := Some (js ''2024-01-15''),
     tags := Some [js ''javascript'']\<rparr>)"

section \<open>String helpers\<close>

text \<open>
  White space as \<open>String.prototype.trim\<close> and the regular-expression class \<open>\s\<close> read it:
  TAB, LF, VT, FF, CR, SPACE, NBSP, U+1680, U+2000 to U+200A, U+2028, U+2029, U+202F,
  U+205F, U+3000 and U+FEFF.
\<close>

definition is_space :: "nat \<Rightarrow> bool" where
  "is_space c =
     (c = 9 \<or> c = 10 \<or> c = 11 \<or> c = 12 \<or> c = 13 \<or> c = 32 \<or> c = 160 \<or> c = 5760 \<or>
      (8192 \<le> c \<and> c \<le> 8202) \<or> c = 8232 \<or> c = 8233 \<or> c = 8239 \<or> c = 8287 \<or>
      c = 12288 \<or> c = 65279)"

definition trim :: "ustring \<Rightarrow> ustring" where
  "trim s = rev (dropWhile is_space (rev (dropWhile is_space s)))"

text \<open>\<open>s.replace(/c/g, r)\<close> for a single code unit \<open>c\<close> and a replacement without \<open>$\<close>.\<close>

fun replaceChar :: "nat \<Rightarrow> ustring \<Rightarrow> ustring \<Rightarrow> ustring" where
  "replaceChar c r [] = []"
| "replaceChar c r (x # xs) = (if x = c then r @ replaceChar c r xs else x # replaceChar c r xs)"

text \<open>
  \<open>s.replace(/[p]+/g, r)\<close> for a character class \<open>p\<close>: every maximal run of code units
  in the class is replaced by \<open>r\<close>.
\<close>

function replaceRuns :: "(nat \<Rightarrow> bool) \<Rightarrow> ustring \<Rightarrow> ustring \<Rightarrow> ustring" where
  "replaceRuns p r [] = []"
| "replaceRuns p r (c # cs) =
     (if p c then r @ replaceRuns p r (dropWhile p cs) else c # replaceRuns p r cs)"
  by pat_completeness auto
termination
  by (relation "measure (\<lambda>(p, r, s). length s)")
     (auto simp: less_Suc_eq_le length_dropWhile_le)

text \<open>
  \<open>s.replace(/<[^>]*>/g, '')\<close>: at a \<open><\<close> (60) with a \<open>>\<close> (62) somewhere after it, the
  match runs to the first such \<open>>\<close> and is deleted; a \<open><\<close> with no \<open>>\<close> after it stays.
\<close>

function stripTags :: "ustring \<Rightarrow> ustring" where
  "stripTags [] = []"
| "stripTags (c # cs) =
     (if c = 60 \<and> 62 \<in> set cs then stripTags (tl (dropWhile (\<lambda>x. x \<noteq> 62) cs))
      else c # stripTags cs)"
  by pat_completeness auto
termination
proof (relation "measure length")
  fix c :: nat and cs :: ustring
  have "length (tl (dropWhile (\<lambda>x. x \<noteq> 62) cs)) \<le> length cs"
    using length_dropWhile_le [of "\<lambda>x. x \<noteq> 62" cs] by simp
  then show "(tl (dropWhile (\<lambda>x. x \<noteq> 62) cs), c # cs) \<in> measure length" by simp
qed simp_all

text \<open>\<open>s.lastIndexOf(c)\<close>: the index of the last occurrence, or \<open>-1\<close>.\<close>

fun lastIndexOf :: "nat \<Rightarrow> ustring \<Rightarrow> int" where
  "lastIndexOf c [] = - 1"
| "lastIndexOf c (x # xs) =
     (let r = lastIndexOf c xs in if 0 \<le> r then r + 1 else if x = c then 0 else - 1)"

text \<open>\<open>s.substring(0, n)\<close> for an integer \<open>n\<close>: a negative \<open>n\<close> counts as 0.\<close>

definition substring0 :: "int \<Rightarrow> ustring \<Rightarrow> ustring" where
  "substring0 n s = take (nat n) s"

text \<open>
  \<open>xs.slice(0, e)\<close> for an integer \<open>e\<close>: a negative \<open>e\<close> counts from the end of the
  array.
\<close>

definition slice0 :: "int \<Rightarrow> 'a list \<Rightarrow> 'a list" where
  "slice0 e xs = (if e < 0 then take (nat (int (length xs) + e)) xs else take (nat e) xs)"

text \<open>\<open>a || b\<close> for an optional string \<open>a\<close>.\<close>

definition orElse :: "ustring option \<Rightarrow> ustring \<Rightarrow> ustring" where
  "orElse a b = (case a of None \<Rightarrow> b | Some s \<Rightarrow> if s = [] then b else s)"

text \<open>\<open>[...new Set(xs)]\<close>: the first occurrence of every element, in insertion order.\<close>

definition uniq :: "'a list \<Rightarrow> 'a list" where
  "uniq xs = foldl (\<lambda>acc x. if x \<in> set acc then acc else acc @ [x]) [] xs"

section \<open>Read time\<close>

text \<open>
  Arithmetic of \<open>readTimeUtils.ts\<close> on these values: \<open>+\<close>, \<open>Math.max\<close> against an integer,
  the product with 3, and \<open>Math.ceil(a / b)\<close> for a count \<open>a\<close> and an integer \<open>b\<close>
  (\<open>0 / 0\<close> is \<open>NaN\<close>, \<open>a / 0\<close> is \<open>+Infinity\<close> for \<open>a > 0\<close>). Integers are taken in the
  range in which the floating-point operations are exact.
\<close>

fun numAdd :: "num \<Rightarrow> num \<Rightarrow> num" where
  "numAdd (Num a) (Num b) = Num (a + b)"
| "numAdd (Num a) NaN = NaN"
| "numAdd (Num a) PosInf = PosInf"
| "numAdd NaN b = NaN"
| "numAdd PosInf (Num b) = PosInf"
| "numAdd PosInf NaN = NaN"
| "numAdd PosInf PosInf = PosInf"

fun numMax :: "num \<Rightarrow> int \<Rightarrow> num" where
  "numMax (Num a) b = Num (max a b)"
| "numMax NaN b = NaN"
| "numMax PosInf b = PosInf"

fun numTimes3 :: "num \<Rightarrow> num" where
  "numTimes3 (Num a) = Num (a * 3)"
| "numTimes3 NaN = NaN"
| "numTimes3 PosInf = PosInf"

definition ceilDiv :: "nat \<Rightarrow> int \<Rightarrow> num" where
  "ceilDiv a b =
     (if b = 0 then (if a = 0 then NaN else PosInf)
      else Num \<lceil>real a / real_of_int b\<rceil>)"

text \<open>
  \<open>ReadTimeConfig\<close> is \<open>int readTimeFields\<close>; a partial configuration (the \<open>options\<close>
  argument, and \<open>posts.readTime\<close> of the shared \<open>blogConfig\<close>) is
  \<open>int option readTimeFields\<close>.
\<close>

record 'a readTimeFields =
  wordsPerMinute :: 'a
  defaultTime :: 'a
  minTimeForLongArticle :: 'a
  minTimeForVeryLongArticle :: 'a
  longArticleThreshold :: 'a
  veryLongArticleThreshold :: 'a
  headingsWeight :: 'a

type_synonym readTimeConfig = "int readTimeFields"
type_synonym readTimeOptions = "int option readTimeFields"

definition DEFAULT_READ_TIME_CONFIG :: readTimeConfig where
  "DEFAULT_READ_TIME_CONFIG = \<lparr>wordsPerMinute = 225, defaultTime = 3, minTimeForLongArticle = 5,
     minTimeForVeryLongArticle = 10, longArticleThreshold = 1500,
     veryLongArticleThreshold = 3000, headingsWeight = 5\<rparr>"

text \<open>
  One field of \<open>{...DEFAULT_READ_TIME_CONFIG, ...blogConfig.posts.readTime, ...options}\<close>:
  the options win over the blog configuration, which wins over the default.
\<close>

definition pick :: "'a option \<Rightarrow> 'a option \<Rightarrow> 'a \<Rightarrow> 'a" where
  "pick opt blog dflt =
     (case opt of Some v \<Rightarrow> v | None \<Rightarrow> (case blog of Some v \<Rightarrow> v | None \<Rightarrow> dflt))"

definition mergeReadTimeConfig :: "readTimeOptions \<Rightarrow> readTimeOptions \<Rightarrow> readTimeConfig" where
  "mergeReadTimeConfig blog options =
     \<lparr>wordsPerMinute = pick (wordsPerMinute options) (wordsPerMinute blog)
        (wordsPerMinute DEFAULT_READ_TIME_CONFIG),
      defaultTime = pick (defaultTime options) (defaultTime blog)
        (defaultTime DEFAULT_READ_TIME_CONFIG),
      minTimeForLongArticle = pick (minTimeForLongArticle options) (minTimeForLongArticle blog)
        (minTimeForLongArticle DEFAULT_READ_TIME_CONFIG),
      minTimeForVeryLongArticle = pick (minTimeForVeryLongArticle options)
        (minTimeForVeryLongArticle blog) (minTimeForVeryLongArticle DEFAULT_READ_TIME_CONFIG),
      longArticleThreshold = pick (longArticleThreshold options) (longArticleThreshold blog)
        (longArticleThreshold DEFAULT_READ_TIME_CONFIG),
      veryLongArticleThreshold = pick (veryLongArticleThreshold options)
        (veryLongArticleThreshold blog) (veryLongArticleThreshold DEFAULT_READ_TIME_CONFIG),
      headingsWeight = pick (headingsWeight options) (headingsWeight blog)
        (headingsWeight DEFAULT_READ_TIME_CONFIG)\<rparr>"

definition getDefaultTime :: "readTimeOptions \<Rightarrow> readTimeOptions \<Rightarrow> int" where
  "getDefaultTime blog options =
     pick (defaultTime options) (defaultTime blog) (defaultTime DEFAULT_READ_TIME_CONFIG)"

text \<open>
  \<open>s.split(/\s+/)\<close>: the pieces between the maximal runs of white space; a run at the
  start or the end of \<open>s\<close> leaves an empty piece there, and the empty string gives one
  empty piece.
\<close>

function splitWs :: "ustring \<Rightarrow> ustring list" where
  "splitWs [] = [[]]"
| "splitWs (c # cs) =
     (let w = takeWhile (\<lambda>x. \<not> is_space x) (c # cs);
          r = dropWhile (\<lambda>x. \<not> is_space x) (c # cs)
      in if r = [] then [w] else w # splitWs (dropWhile is_space r))"
  by pat_completeness auto
termination
proof (relation "measure length")
  fix c :: nat and cs w r :: ustring
  assume r: "r = dropWhile (\<lambda>x. \<not> is_space x) (c # cs)" and ne: "r \<noteq> []"
  then obtain d ds where d: "dropWhile (\<lambda>x. \<not> is_space x) (c # cs) = d # ds"
    by (metis neq_Nil_conv)
  from r d have rd: "r = d # ds" by (simp only:)
  from d have "is_space d" unfolding dropWhile_eq_Cons_conv by blast
  then have "length (dropWhile is_space (d # ds)) \<le> length ds"
    by (simp add: length_dropWhile_le)
  also have "\<dots> < length (d # ds)" by simp
  also have "length (d # ds) \<le> length (c # cs)"
    using length_dropWhile_le [of "\<lambda>x. \<not> is_space x" "c # cs"] unfolding d .
  finally have "length (dropWhile is_space (d # ds)) < length (c # cs)" .
  then show "(dropWhile is_space r, c # cs) \<in> measure length" unfolding rd by simp
qed simp

text \<open>\<open>cleanContent.trim().split(/\s+/).filter(Boolean).length\<close> after the tags are removed.\<close>

definition wordCount :: "ustring \<Rightarrow> nat" where
  "wordCount body = length (filter (\<lambda>w. w \<noteq> []) (splitWs (trim (stripTags body))))"

text \<open>
  Line terminators: the code units that \<open>.\<close> does not match and next to which \<open>^\<close> and
  \<open>$\<close> hold under the \<open>m\<close> flag (LF, CR, U+2028, U+2029).
\<close>

definition is_lt :: "nat \<Rightarrow> bool" where
  "is_lt c = (c = 10 \<or> c = 13 \<or> c = 8232 \<or> c = 8233)"

text \<open>
  One match of \<open>/^#+\s+.+$/m\<close> at a line start \<open>xs\<close>, returning the input after the match.
  \<open>#+\<close> takes the whole run of \<open>#\<close> (35), since the next code unit has to be white space.
  \<open>\s+\<close> is greedy: it takes the whole run \<open>ws\<close> of white space when a code unit follows
  the run (it is no white space, so \<open>.+\<close> matches it); when the run ends the input, it
  gives back code units down to the last one of \<open>ws\<close>, after the first, that is no line
  terminator, where \<open>.+\<close> starts. \<open>.+\<close> then runs to the end of its line, where \<open>$\<close>
  holds.
\<close>

definition matchHeading :: "ustring \<Rightarrow> ustring option" where
  "matchHeading xs =
     (let r1 = dropWhile (\<lambda>c. c = 35) xs;
          ws = takeWhile is_space r1;
          r2 = dropWhile is_space r1
      in if xs = [] \<or> hd xs \<noteq> 35 \<or> ws = [] then None
         else if r2 \<noteq> [] then Some (dropWhile (\<lambda>c. \<not> is_lt c) r2)
         else (case filter (\<lambda>j. \<not> is_lt (ws ! j)) (rev [1..<length ws]) of
                 [] \<Rightarrow> None
               | j # _ \<Rightarrow> Some (dropWhile (\<lambda>c. \<not> is_lt c) (drop j ws))))"

text \<open>
  The number of matches of \<open>content.match(/^#+\s+.+$/gm)\<close>: the search goes from left to
  right, a match is tried where \<open>^\<close> holds (\<open>bol\<close>: at the start of the input or after a
  line terminator), and the search resumes where the last match ended, which is never a
  line start.
\<close>

function countHeadingsFrom :: "bool \<Rightarrow> ustring \<Rightarrow> nat" where
  "countHeadingsFrom bol [] = 0"
| "countHeadingsFrom bol (c # cs) =
     (if bol
      then (case matchHeading (c # cs) of
              Some rest \<Rightarrow> Suc (countHeadingsFrom False rest)
            | None \<Rightarrow> countHeadingsFrom (is_lt c) cs)
      else countHeadingsFrom (is_lt c) cs)"
  by pat_completeness auto
termination
proof (relation "measure (\<lambda>(bol, s). length s)")
  fix bol :: bool and c :: nat and cs rest :: ustring
  assume m: "matchHeading (c # cs) = Some rest"
  define r1 where "r1 = dropWhile (\<lambda>x. x = 35) (c # cs)"
  define ws where "ws = takeWhile is_space r1"
  define r2 where "r2 = dropWhile is_space r1"
  from m have "c = 35"
    by (auto simp: matchHeading_def Let_def split: if_splits)
  then have l1: "length r1 \<le> length cs"
    unfolding r1_def by (simp add: length_dropWhile_le)
  have l2: "length r2 \<le> length r1" unfolding r2_def by (simp add: length_dropWhile_le)
  have l3: "length ws \<le> length r1" unfolding ws_def by (simp add: length_takeWhile_le)
  from m have "(r2 \<noteq> [] \<and> rest = dropWhile (\<lambda>x. \<not> is_lt x) r2) \<or>
      (\<exists>j. rest = dropWhile (\<lambda>x. \<not> is_lt x) (drop j ws))"
    unfolding matchHeading_def Let_def r1_def [symmetric] ws_def [symmetric] r2_def [symmetric]
    by (auto split: if_splits list.splits)
  then have "length rest \<le> length r1"
  proof (elim disjE exE conjE)
    assume "rest = dropWhile (\<lambda>x. \<not> is_lt x) r2"
    then have "length rest \<le> length r2" by (simp add: length_dropWhile_le)
    with l2 show ?thesis by simp
  next
    fix j assume "rest = dropWhile (\<lambda>x. \<not> is_lt x) (drop j ws)"
    then have "length rest \<le> length (drop j ws)"
      using length_dropWhile_le [of "\<lambda>x. \<not> is_lt x" "drop j ws"] by simp
    with l3 show ?thesis by simp
  qed
  with l1 show "((False, rest), (bol, c # cs)) \<in> measure (\<lambda>(bol, s). length s)" by simp
qed simp_all

definition countHeadings :: "ustring \<Rightarrow> nat" where
  "countHeadings body = countHeadingsFrom True body"

text \<open>
  \<open>calculateReadTime(content, options)\<close>, with \<open>blog\<close> for \<open>blogConfig.posts.readTime\<close>.
  No expression of the \<open>try\<close> block throws on a string, so the \<open>catch\<close> branch is not
  modelled.
\<close>

definition calculateReadTime :: "readTimeOptions \<Rightarrow> ustring \<Rightarrow> readTimeOptions \<Rightarrow> num" where
  "calculateReadTime blog body options =
     (if body = [] then Num (getDefaultTime blog options)
      else
        (let config = mergeReadTimeConfig blog options;
             wc = wordCount body;
             headingCount = countHeadings body;
             readTime0 = ceilDiv wc (wordsPerMinute config);
             readTime1 = (if 0 < headingCount
                          then numAdd readTime0 (ceilDiv headingCount (headingsWeight config))
                          else readTime0);
             readTime2 = (if veryLongArticleThreshold config < int wc
                          then numMax readTime1 (minTimeForVeryLongArticle config)
                          else if longArticleThreshold config < int wc
                          then numMax readTime1 (minTimeForLongArticle config)
                          else readTime1)
         in numMax readTime2 (defaultTime config)))"

text \<open>
  \<open>getPostReadTime(post, options)\<close> for a post object with the optional \<open>readTime\<close>,
  \<open>content\<close> and \<open>excerpt\<close> given as the three arguments.
\<close>

definition getPostReadTime ::
  "readTimeOptions \<Rightarrow> num option \<Rightarrow> ustring option \<Rightarrow> ustring option \<Rightarrow> readTimeOptions \<Rightarrow> num" where
  "getPostReadTime blog rt body exc options =
     (if truthyNum rt then (case rt of Some r \<Rightarrow> r | None \<Rightarrow> NaN)
      else if truthy body then calculateReadTime blog (orElse body []) options
      else if truthy exc
      then numMax (numTimes3 (calculateReadTime blog (orElse exc []) options))
             (defaultTime (mergeReadTimeConfig blog options))
      else Num (getDefaultTime blog options))"








definition noOptions :: readTimeOptions where
  "noOptions = \<lparr>wordsPerMinute = None, defaultTime = None, minTimeForLongArticle = None,
     minTimeForVeryLongArticle = None, longArticleThreshold = None,
     veryLongArticleThreshold = None, headingsWeight = None\<rparr>"







section \<open>RSS feed\<close>

text \<open>The fields of the shared configuration record \<open>blogConfig\<close> that the functions below read.\<close>

record blogConfig =
  cfg_name :: ustring
  cfg_description :: ustring
  cfg_uri :: ustring
  excerptLength :: int
  posts_readTime :: readTimeOptions

record rssFeedOptions =
  siteUrl :: "ustring option"
  feedTitle :: "ustring option"
  feedDescription :: "ustring option"
  feedPath :: "ustring option"
  maxItems :: "int option"
  language :: "ustring option"

text \<open>
  A thrown \<open>Error\<close> or \<open>TypeError\<close> with its message, or an error carrying an HTTP
  status.
\<close>

datatype error = Error ustring | TypeError ustring | HttpError ustring nat

definition escapeXml :: "ustring \<Rightarrow> ustring" where
  "escapeXml str =
     (if str = [] then []
      else replaceChar 39 (js ''&apos;'')
             (replaceChar 34 (js ''&quot;'')
               (replaceChar 62 (js ''&gt;'')
                 (replaceChar 60 (js ''&lt;'')
                   (replaceChar 38 (js ''&amp;'') str)))))"

definition getPostUrl :: "blogConfig \<Rightarrow> processedPost \<Rightarrow> ustring" where
  "getPostUrl config post =
     (case urlPath post of
        None \<Rightarrow> cfg_uri config
      | Some p \<Rightarrow> if p = [] then cfg_uri config else cfg_uri config @ p)"

definition getPostExcerpt :: "blogConfig \<Rightarrow> processedPost \<Rightarrow> int option \<Rightarrow> ustring" where
  "getPostExcerpt config post maxLength =
     (let limit = (case maxLength of None \<Rightarrow> excerptLength config | Some n \<Rightarrow> n);
          excerpt0 = orElse (excerpt (fm post)) [];
          excerpt1 =
            (if excerpt0 = [] \<and> truthy (content post)
             then substring0 (limit * 2)
                    (trim (replaceRuns (\<lambda>c. c = 10) (js '' '')
                      (filter (\<lambda>c. c \<notin> {35, 42, 95, 126, 96})
                        (stripTags (orElse (content post) [])))))
             else excerpt0)
      in if limit < int (length excerpt1)
         then (let truncated = substring0 limit excerpt1;
                   lastSpace = lastIndexOf 32 truncated
               in (if 0 < lastSpace then substring0 lastSpace truncated else truncated) @ js ''...'')
         else excerpt1)"

definition getRssCategoriesXml :: "processedPost \<Rightarrow> ustring" where
  "getRssCategoriesXml post =
     (let cats =
            (case categories (fm post) of
               Some cs \<Rightarrow> cs
             | None \<Rightarrow> (if truthy (category (fm post)) then [orElse (category (fm post)) []] else [])) @
            (case tags (fm post) of Some ts \<Rightarrow> ts | None \<Rightarrow> [])
      in concat (map (\<lambda>c. js ''    <category>'' @ escapeXml c @ js ''</category>'' @ [10])
                   (uniq cats)))"

text \<open>
  The local constants \<open>title\<close>, \<open>excerpt\<close> and \<open>author\<close> of the loop body of
  \<open>generateRssFeed\<close>: the texts that are escaped into the \<open>title\<close>, \<open>description\<close> and
  \<open>author\<close> elements.
\<close>

definition rssTitle :: "processedPost \<Rightarrow> ustring" where
  "rssTitle post = orElse (title (fm post)) (js ''Untitled Post'')"

definition rssExcerpt :: "blogConfig \<Rightarrow> processedPost \<Rightarrow> ustring" where
  "rssExcerpt config post =
     orElse (Some (getPostExcerpt config post (Some 300))) (js ''No description available'')"

definition rssAuthor :: "blogConfig \<Rightarrow> processedPost \<Rightarrow> ustring" where
  "rssAuthor config post = orElse (map_option name (author (fm post))) (cfg_name config)"

text \<open>
  The text appended for one post. \<open>toUTCString x\<close> stands for
  \<open>new Date(x).toUTCString()\<close>, a built-in that never throws.
\<close>

definition rssItem ::
  "blogConfig \<Rightarrow> (ustring option \<Rightarrow> ustring) \<Rightarrow> ustring \<Rightarrow> processedPost \<Rightarrow> ustring" where
  "rssItem config toUTCString baseUrl post =
     (let postUrl = baseUrl @ getPostUrl config post;
          pubDate = toUTCString (post_date post);
          categories' = getRssCategoriesXml post;
          modifiedDate =
            (if truthy (updated (fm post)) then Some (toUTCString (updated (fm post))) else None)
      in js ''  <item>'' @ [10] @
         js ''    <title>'' @ escapeXml (rssTitle post) @ js ''</title>'' @ [10] @
         js ''    <link>'' @ postUrl @ js ''</link>'' @ [10] @
         js ''    <guid isPermaLink='' @ [34] @ js ''true'' @ [34] @ js ''>'' @ postUrl @
           js ''</guid>'' @ [10] @
         js ''    <pubDate>'' @ pubDate @ js ''</pubDate>'' @ [10] @
         (if truthy modifiedDate
          then js ''    <lastBuildDate>'' @ orElse modifiedDate [] @ js ''</lastBuildDate>'' @ [10]
          else []) @ [10] @
         js ''    <description>'' @ escapeXml (rssExcerpt config post) @ js ''</description>'' @ [10] @
         js ''    <author>'' @ escapeXml (rssAuthor config post) @ js ''</author>'' @ [10] @
         categories' @ [10] @
         js ''  </item>'' @ [10])"

text \<open>
  \<open>limitedPosts\<close> of \<open>generateRssFeed\<close>: the posts with a title and a date, cut at
  \<open>maxItems\<close> (default 20).
\<close>

definition limitedPosts :: "processedPost list \<Rightarrow> rssFeedOptions \<Rightarrow> processedPost list" where
  "limitedPosts posts options =
     slice0 (case maxItems options of None \<Rightarrow> 20 | Some m \<Rightarrow> m)
       (filter (\<lambda>post. truthy (title (fm post)) \<and> truthy (post_date post)) posts)"

definition baseUrlOf :: "ustring \<Rightarrow> ustring" where
  "baseUrlOf u = (if u \<noteq> [] \<and> last u = 47 then butlast u else u)"

text \<open>
  The texts appended by the \<open>forEach\<close> over \<open>limitedPosts\<close>, one per post: on records of
  these types no expression of the loop body throws, so the \<open>catch\<close> branch that skips a
  post is never taken.
\<close>

definition rssItems ::
  "blogConfig \<Rightarrow> (ustring option \<Rightarrow> ustring) \<Rightarrow> processedPost list \<Rightarrow> rssFeedOptions \<Rightarrow> ustring list" where
  "rssItems config toUTCString posts options =
     map (rssItem config toUTCString (baseUrlOf (orElse (siteUrl options) [])))
       (limitedPosts posts options)"

definition rssHeader :: "blogConfig \<Rightarrow> ustring \<Rightarrow> rssFeedOptions \<Rightarrow> ustring" where
  "rssHeader config now options =
     (let baseUrl = baseUrlOf (orElse (siteUrl options) []);
          feedTitle' = (case feedTitle options of None \<Rightarrow> cfg_name config | Some t \<Rightarrow> t);
          feedDescription' =
            (case feedDescription options of None \<Rightarrow> cfg_description config | Some d \<Rightarrow> d);
          feedPath' =
            (case feedPath options of None \<Rightarrow> cfg_uri config @ js ''/rss.xml'' | Some p \<Rightarrow> p);
          language' = (case language options of None \<Rightarrow> js ''en'' | Some l \<Rightarrow> l)
      in js ''<?xml version='' @ [34] @ js ''1.0'' @ [34] @ js '' encoding='' @ [34] @
           js ''UTF-8'' @ [34] @ js '' ?>'' @ [10] @
         js ''<rss version='' @ [34] @ js ''2.0'' @ [34] @ js '' xmlns:atom='' @ [34] @
           js ''http://www.w3.org/2005/Atom'' @ [34] @ js '' xmlns:content='' @ [34] @
           js ''http://purl.org/rss/1.0/modules/content/'' @ [34] @ js ''>'' @ [10] @
         js ''<channel>'' @ [10] @
         js ''  <title>'' @ escapeXml feedTitle' @ js ''</title>'' @ [10] @
         js ''  <link>'' @ baseUrl @ cfg_uri config @ js ''</link>'' @ [10] @
         js ''  <description>'' @ escapeXml feedDescription' @ js ''</description>'' @ [10] @
         js ''  <language>'' @ language' @ js ''</language>'' @ [10] @
         js ''  <lastBuildDate>'' @ now @ js ''</lastBuildDate>'' @ [10] @
         js ''  <generator>SvelteKit Blog RSS Generator</generator>'' @ [10] @
         js ''  <atom:link href='' @ [34] @ baseUrl @ feedPath' @ [34] @ js '' rel='' @ [34] @
           js ''self'' @ [34] @ js '' type='' @ [34] @ js ''application/rss+xml'' @ [34] @
           js '' />'' @ [10])"

text \<open>\<open>now\<close> stands for \<open>new Date().toUTCString()\<close> at the time of the call.\<close>

definition generateRssFeed ::
  "blogConfig \<Rightarrow> (ustring option \<Rightarrow> ustring) \<Rightarrow> ustring \<Rightarrow> processedPost list \<Rightarrow> rssFeedOptions
     \<Rightarrow> error + ustring" where
  "generateRssFeed config toUTCString now posts options =
     (if \<not> truthy (siteUrl options)
      then Inl (Error (js ''siteUrl is required to generate RSS feed''))
      else Inr (rssHeader config now options @
                concat (rssItems config toUTCString posts options) @
                js ''</channel>'' @ [10] @ js ''</rss>''))"

text \<open>The replacement of one code unit by \<open>escapeXml\<close>.\<close>

definition xmlEntity :: "nat \<Rightarrow> ustring" where
  "xmlEntity c =
     (if c = 38 then js ''&amp;''
      else if c = 60 then js ''&lt;''
      else if c = 62 then js ''&gt;''
      else if c = 34 then js ''&quot;''
      else if c = 39 then js ''&apos;''
      else [c])"

definition xmlSpecial :: "nat \<Rightarrow> bool" where
  "xmlSpecial c = (c = 38 \<or> c = 60 \<or> c = 62 \<or> c = 34 \<or> c = 39)"

definition isEntity :: "ustring \<Rightarrow> bool" where
  "isEntity e =
     (e = js ''&amp;'' \<or> e = js ''&lt;'' \<or> e = js ''&gt;'' \<or> e = js ''&quot;'' \<or> e = js ''&apos;'')"

text \<open>
  The configuration of the test suite, and a post whose excerpt has 301 code units, the
  last of them \<open><\<close>.
\<close>

definition testConfig :: blogConfig where
  "testConfig = \<lparr>cfg_name = js ''Test Blog'', cfg_description = js ''A test blog'',
     cfg_uri = js ''/blog'', excerptLength = 150, posts_readTime = noOptions\<rparr>"

definition longExcerptPost :: processedPost where
  "longExcerptPost = mkPost (emptyFm\<lparr>title := Some (js ''Post''), date := Some (js ''2024-01-15''),
     excerpt := Some (replicate 300 97 @ [60])\<rparr>)"


text \<open>A post with special characters in its title, excerpt, author name and category.\<close>

definition specialPost :: processedPost where
  "specialPost = mkPost (emptyFm\<lparr>title := Some (js ''Q&A''), date := Some (js ''2024-01-15''),
     categories := Some [js ''R&D''], excerpt := Some (js ''1 < 2''),
     author := Some \<lparr>name = js ''O'' @ [39] @ js ''Neil'', avatar = None, url = None\<rparr>\<rparr>)"


definition testOptions :: rssFeedOptions where
  "testOptions = \<lparr>siteUrl = Some (js ''https://example.com/''), feedTitle = None,
     feedDescription = None, feedPath = None, maxItems = Some 1, language = None\<rparr>"







text \<open>
  A post whose excerpt has 311 code units: 290 letters, a space and twenty \<open><\<close>.
\<close>

definition spacedExcerptPost :: processedPost where
  "spacedExcerptPost = mkPost (emptyFm\<lparr>title := Some (js ''Post''), date := Some (js ''2024-01-15''),
     excerpt := Some (replicate 290 97 @ [32] @ replicate 20 60)\<rparr>)"

section \<open>Slugs\<close>

text \<open>The class \<open>\w\<close>: ASCII letters, digits and the underscore.\<close>

definition is_word :: "nat \<Rightarrow> bool" where
  "is_word c = ((65 \<le> c \<and> c \<le> 90) \<or> (97 \<le> c \<and> c \<le> 122) \<or> (48 \<le> c \<and> c \<le> 57) \<or> c = 95)"

text \<open>\<open>s.replace(/--+/g, '-')\<close>: every run of two or more hyphens (45) becomes one hyphen.\<close>

function collapseHyphens :: "ustring \<Rightarrow> ustring" where
  "collapseHyphens [] = []"
| "collapseHyphens [c] = [c]"
| "collapseHyphens (a # b # cs) =
     (if a = 45 \<and> b = 45 then 45 # collapseHyphens (dropWhile (\<lambda>x. x = 45) cs)
      else a # collapseHyphens (b # cs))"
  by pat_completeness auto
termination
  by (relation "measure length") (auto simp: less_Suc_eq_le intro: le_SucI length_dropWhile_le)

text \<open>
  \<open>slugify\<close> of \<open>blogUtils.ts\<close>. The built-in \<open>String.prototype.toLowerCase\<close> is the
  parameter \<open>toLowerCase\<close>: it follows the Unicode case tables, which are not part of
  the repository.
\<close>

definition slugify :: "(ustring \<Rightarrow> ustring) \<Rightarrow> ustring \<Rightarrow> ustring" where
  "slugify toLowerCase text =
     collapseHyphens
       (filter (\<lambda>c. is_word c \<or> c = 45)
         (replaceRuns is_space (js ''-'') (trim (toLowerCase text))))"

text \<open>
  What \<open>toLowerCase\<close> does to a code unit below U+0100: the letters A to Z and the
  capital letters of Latin-1 (U+00C0 to U+00DE without the multiplication sign U+00D7) move
  up by 32, every other code unit stays. \<open>lowerCaseFacts\<close> are the two facts about the
  built-in that the properties of \<open>slugify\<close> rest on: on a string of code units below
  U+0100 it is this map, and its result never holds a letter A to Z.
\<close>

definition latin1_lower :: "nat \<Rightarrow> nat" where
  "latin1_lower c =
     (if (65 \<le> c \<and> c \<le> 90) \<or> (192 \<le> c \<and> c \<le> 222 \<and> c \<noteq> 215) then c + 32 else c)"

definition lowerCaseFacts :: "(ustring \<Rightarrow> ustring) \<Rightarrow> bool" where
  "lowerCaseFacts toLowerCase =
     ((\<forall>s. list_all (\<lambda>c. c < 256) s \<longrightarrow> toLowerCase s = map latin1_lower s) \<and>
      (\<forall>s. list_all (\<lambda>c. \<not> (65 \<le> c \<and> c \<le> 90)) (toLowerCase s)))"

text \<open>The code units of a slug: lower-case ASCII letters, digits, underscore and hyphen.\<close>

definition slugChar :: "nat \<Rightarrow> bool" where
  "slugChar c = ((97 \<le> c \<and> c \<le> 122) \<or> (48 \<le> c \<and> c \<le> 57) \<or> c = 95 \<or> c = 45)"

text \<open>
  The reading of the specification, on the lower-cased text without the white space at its
  ends: a word character is kept, and each maximal run of other characters becomes one
  hyphen when white space or a hyphen is in it, and nothing otherwise.
\<close>

function slugRuns :: "ustring \<Rightarrow> ustring" where
  "slugRuns [] = []"
| "slugRuns (c # cs) =
     (if is_word c then c # slugRuns cs
      else (if list_ex (\<lambda>x. is_space x \<or> x = 45) (c # takeWhile (\<lambda>x. \<not> is_word x) cs)
            then [45] else []) @
           slugRuns (dropWhile (\<lambda>x. \<not> is_word x) cs))"
  by pat_completeness auto
termination
  by (relation "measure length") (auto simp: less_Suc_eq_le length_dropWhile_le)

section \<open>Message lookup\<close>

text \<open>
  \<open>MessageValue\<close> of \<open>messages.ts\<close>: a string, a function of the trailing arguments
  (\<open>None\<close> when the call throws), or a record of strings and functions. An object that is
  indexed by a key is the function that gives the result of the property read
  (\<open>None\<close> for \<open>undefined\<close>). A key or an argument is a string or some other value.
\<close>

datatype msgArg = ArgStr ustring | ArgOther

datatype leafMessage = LeafStr ustring | LeafFn "msgArg list \<Rightarrow> ustring option"

datatype messageValue =
    MsgStr ustring
  | MsgFn "msgArg list \<Rightarrow> ustring option"
  | MsgRecord "ustring \<Rightarrow> leafMessage option"

datatype msgKey = KeyStr ustring | KeyOther

text \<open>The warnings that the getter logs.\<close>

datatype msgWarning = InvalidKey msgKey | UserFnError ustring | DefaultFnError ustring

fun leafValue :: "leafMessage \<Rightarrow> messageValue" where
  "leafValue (LeafStr s) = MsgStr s"
| "leafValue (LeafFn f) = MsgFn f"

text \<open>
  The function returned by \<open>createMessageGetter(messages)\<close>, applied to \<open>key\<close>,
  \<open>fallback\<close> and the trailing arguments; \<open>defaultMsgs\<close> is the table \<open>defaultMessages\<close>.
  It returns the warnings logged and the value.
\<close>

definition messageGetter ::
  "(ustring \<Rightarrow> messageValue option) \<Rightarrow> (ustring \<Rightarrow> messageValue option) \<Rightarrow>
   msgKey \<Rightarrow> ustring option \<Rightarrow> msgArg list \<Rightarrow> msgWarning list \<times> messageValue" where
  "messageGetter messages defaultMsgs key fallback args =
     (case key of
        KeyOther \<Rightarrow> ([InvalidKey key], MsgStr (orElse fallback (js ''INVALID_KEY'')))
      | KeyStr k \<Rightarrow>
          if k = js ''__proto__'' \<or> k = js ''constructor''
          then ([InvalidKey key], MsgStr (orElse fallback (js ''INVALID_KEY'')))
          else
            (case messages k of
               Some (MsgFn f) \<Rightarrow>
                 (case f args of
                    Some r \<Rightarrow> ([], MsgStr r)
                  | None \<Rightarrow> ([UserFnError k], MsgStr (orElse fallback k)))
             | Some userMsg \<Rightarrow> ([], userMsg)
             | None \<Rightarrow>
                 (case defaultMsgs k of
                    Some (MsgFn f) \<Rightarrow>
                      (case f args of
                         Some r \<Rightarrow> ([], MsgStr r)
                       | None \<Rightarrow> ([DefaultFnError k], MsgStr (orElse fallback k)))
                  | Some (MsgRecord rec) \<Rightarrow>
                      (case args of
                         ArgStr nestedKey # _ \<Rightarrow>
                           if nestedKey \<noteq> js ''__proto__'' \<and> nestedKey \<noteq> js ''constructor''
                           then (case rec nestedKey of
                                   Some nestedValue \<Rightarrow> ([], leafValue nestedValue)
                                 | None \<Rightarrow> ([], MsgRecord rec))
                           else ([], MsgRecord rec)
                       | _ \<Rightarrow> ([], MsgRecord rec))
                  | Some defaultMsg \<Rightarrow> ([], defaultMsg)
                  | None \<Rightarrow> ([], MsgStr (orElse fallback k)))))"

text \<open>
  \<open>createMessageGetter\<close>: \<open>None\<close> stands for an argument that is \<open>null\<close> or no object.
\<close>

definition createMessageGetter ::
  "(ustring \<Rightarrow> messageValue option) option \<Rightarrow> (ustring \<Rightarrow> messageValue option) \<Rightarrow>
   error + (msgKey \<Rightarrow> ustring option \<Rightarrow> msgArg list \<Rightarrow> msgWarning list \<times> messageValue)" where
  "createMessageGetter messages defaultMsgs =
     (case messages of
        Some m \<Rightarrow> Inr (messageGetter m defaultMsgs)
      | None \<Rightarrow> Inl (TypeError (js ''Messages must be an object'')))"

text \<open>A key is rejected when the getter logs the invalid-key warning for it.\<close>

definition rejectsKey ::
  "(ustring \<Rightarrow> messageValue option) \<Rightarrow> (ustring \<Rightarrow> messageValue option) \<Rightarrow>
   msgKey \<Rightarrow> ustring option \<Rightarrow> msgArg list \<Rightarrow> bool" where
  "rejectsKey messages defaultMsgs key fallback args =
     (InvalidKey key \<in> set (fst (messageGetter messages defaultMsgs key fallback args)))"


section \<open>Configuration merge\<close>

text \<open>
  JavaScript values as \<open>secureDeepMerge\<close> meets them. An object is its prototype and the
  list of its own enumerable string-keyed properties; the prototype is \<open>Object.prototype\<close>
  or some other value (\<open>null\<close> or an object). The order of the list stands for the order
  of the properties, without the rule that moves integer-like keys to the front.
\<close>

datatype jsValue =
    JUndefined
  | JNull
  | JBool bool
  | JNumber int
  | JString ustring
  | JFunction
  | JArray "jsValue list"
  | JObject proto "(ustring \<times> jsValue) list"
and proto = ObjectPrototype | Proto jsValue

definition isPlainObject :: "jsValue \<Rightarrow> bool" where
  "isPlainObject v = (case v of JObject p props \<Rightarrow> True | _ \<Rightarrow> False)"

definition isSafeKey :: "ustring \<Rightarrow> bool" where
  "isSafeKey key = (key \<notin> set [js ''__proto__'', js ''constructor'', js ''prototype''])"

text \<open>The own properties and the prototype of an object.\<close>

fun ownProps :: "jsValue \<Rightarrow> (ustring \<times> jsValue) list" where
  "ownProps (JObject p props) = props"
| "ownProps v = []"

fun protoOf :: "jsValue \<Rightarrow> proto option" where
  "protoOf (JObject p props) = Some p"
| "protoOf v = None"

text \<open>
  The names of the methods of \<open>Object.prototype\<close>, which an object inherits as function
  values; \<open>Object.prototype\<close> also carries \<open>constructor\<close> (a function) and the accessor
  \<open>__proto__\<close>.
\<close>

definition objectPrototypeMethods :: "ustring list" where
  "objectPrototypeMethods =
     [js ''constructor'', js ''toString'', js ''toLocaleString'', js ''valueOf'',
      js ''hasOwnProperty'', js ''isPrototypeOf'', js ''propertyIsEnumerable'',
      js ''__defineGetter__'', js ''__defineSetter__'', js ''__lookupGetter__'',
      js ''__lookupSetter__'']"

text \<open>
  The property read \<open>obj[key]\<close>: the own property, else the property found along the
  prototype chain (the \<open>__proto__\<close> getter of \<open>Object.prototype\<close> gives the prototype of the
  object that is read). The second function reads \<open>key\<close> for the receiver \<open>obj\<close> from a
  prototype on.
\<close>

fun jsGet :: "jsValue \<Rightarrow> ustring \<Rightarrow> jsValue"
  and protoGet :: "proto \<Rightarrow> jsValue \<Rightarrow> ustring \<Rightarrow> jsValue" where
  "jsGet (JObject p props) key =
     (case map_of props key of Some v \<Rightarrow> v | None \<Rightarrow> protoGet p (JObject p props) key)"
| "jsGet v key = JUndefined"
| "protoGet ObjectPrototype obj key =
     (if key = js ''__proto__''
      then (case protoOf obj of Some (Proto v) \<Rightarrow> v | _ \<Rightarrow> JObject (Proto JNull) [])
      else if key \<in> set objectPrototypeMethods then JFunction else JUndefined)"
| "protoGet (Proto (JObject p props)) obj key =
     (case map_of props key of Some v \<Rightarrow> v | None \<Rightarrow> protoGet p obj key)"
| "protoGet (Proto v) obj key = JUndefined"

text \<open>
  Whether an assignment to the key \<open>__proto__\<close> that starts at this prototype reaches the
  setter of \<open>Object.prototype\<close>: an own data property of that name on the way stops it.
\<close>

fun reachesProtoSetter :: "proto \<Rightarrow> bool" where
  "reachesProtoSetter ObjectPrototype = True"
| "reachesProtoSetter (Proto (JObject p props)) =
     (map_of props (js ''__proto__'') = None \<and> reachesProtoSetter p)"
| "reachesProtoSetter (Proto (JArray xs)) = True"
| "reachesProtoSetter (Proto JFunction) = True"
| "reachesProtoSetter (Proto v) = False"

text \<open>
  The assignment \<open>obj[key] = v\<close> on an object of data properties: an own property is
  overwritten in place; the key \<open>__proto__\<close>, when no own property has that name and the
  setter of \<open>Object.prototype\<close> is reached, replaces the prototype by \<open>v\<close> if \<open>v\<close> is an
  object or \<open>null\<close> and does nothing otherwise; any other key becomes a new own property.
\<close>

fun jsSet :: "jsValue \<Rightarrow> ustring \<Rightarrow> jsValue \<Rightarrow> jsValue" where
  "jsSet (JObject p props) key v =
     (if map_of props key \<noteq> None then JObject p (AList.update key v props)
      else if key = js ''__proto__'' \<and> reachesProtoSetter p
      then (case v of
              JObject vp vprops \<Rightarrow> JObject (Proto v) props
            | JArray xs \<Rightarrow> JObject (Proto v) props
            | JFunction \<Rightarrow> JObject (Proto v) props
            | JNull \<Rightarrow> JObject (Proto v) props
            | _ \<Rightarrow> JObject p props)
      else JObject p (props @ [(key, v)]))"
| "jsSet obj key v = obj"

text \<open>
  \<open>secureDeepMerge(target, source)\<close> for a target with the own properties \<open>target\<close>:
  \<open>{ ...target }\<close> is a new object with the prototype \<open>Object.prototype\<close> and these
  properties. \<open>mergeKeys\<close> is the \<open>forEach\<close> over \<open>Object.keys(source)\<close>, with \<open>result\<close>
  threaded through. All writes go to objects created by the merge itself, so no object
  shared with the target or the source is changed. The warning logged for a skipped key
  is left out.
\<close>

fun secureDeepMerge :: "(ustring \<times> jsValue) list \<Rightarrow> jsValue \<Rightarrow> jsValue"
  and mergeKeys :: "(ustring \<times> jsValue) list \<Rightarrow> jsValue \<Rightarrow> jsValue" where
  "secureDeepMerge target (JObject p entries) = mergeKeys entries (JObject ObjectPrototype target)"
| "secureDeepMerge target JUndefined = JObject ObjectPrototype target"
| "secureDeepMerge target JNull = JObject ObjectPrototype target"
| "secureDeepMerge target (JBool b) = JObject ObjectPrototype target"
| "secureDeepMerge target (JNumber n) = JObject ObjectPrototype target"
| "secureDeepMerge target (JString s) = JObject ObjectPrototype target"
| "secureDeepMerge target JFunction = JObject ObjectPrototype target"
| "secureDeepMerge target (JArray xs) = JObject ObjectPrototype target"
| "mergeKeys [] result = result"
| "mergeKeys ((key, sourceValue) # rest) result =
     (if \<not> isSafeKey key then mergeKeys rest result
      else if isPlainObject sourceValue
      then (let targetValue = jsGet result key;
                targetObj = (if isPlainObject targetValue then ownProps targetValue else [])
            in mergeKeys rest (jsSet result key (secureDeepMerge targetObj sourceValue)))
      else mergeKeys rest (jsSet result key sourceValue))"

text \<open>An overlay parsed from JSON with the three dangerous keys, at two levels.\<close>

definition baseRecord :: "(ustring \<times> jsValue) list" where
  "baseRecord =
     [(js ''name'', JString (js ''Blog'')),
      (js ''constructor'', JString (js ''base'')),
      (js ''theme'', JObject ObjectPrototype [(js ''prototype'', JNumber 1)])]"

definition evilOverlay :: jsValue where
  "evilOverlay =
     JObject ObjectPrototype
       [(js ''__proto__'', JObject ObjectPrototype [(js ''polluted'', JBool True)]),
        (js ''constructor'', JString (js ''evil'')),
        (js ''name'', JString (js ''New'')),
        (js ''theme'', JObject ObjectPrototype
           [(js ''prototype'', JNumber 2),
            (js ''__proto__'', JObject ObjectPrototype [(js ''polluted'', JBool True)]),
            (js ''color'', JString (js ''red''))])]"


text \<open>The own property of a value at a key, and the value that the merge stores for one key.\<close>

definition ownProp :: "jsValue \<Rightarrow> ustring \<Rightarrow> jsValue option" where
  "ownProp v key = map_of (ownProps v) key"

definition mergedValue :: "jsValue \<Rightarrow> jsValue \<Rightarrow> jsValue" where
  "mergedValue targetValue sourceValue =
     (if isPlainObject sourceValue
      then secureDeepMerge (if isPlainObject targetValue then ownProps targetValue else [])
             sourceValue
      else sourceValue)"

section \<open>Post pipeline\<close>

text \<open>
  \<open>s.replace(pat, rep)\<close> for a string pattern and a replacement without \<open>$\<close>: the first
  occurrence only.
\<close>

fun replaceFirst :: "ustring \<Rightarrow> ustring \<Rightarrow> ustring \<Rightarrow> ustring" where
  "replaceFirst pat rep [] = (if pat = [] then rep else [])"
| "replaceFirst pat rep (c # cs) =
     (if prefix pat (c # cs) then rep @ drop (length pat) (c # cs)
      else c # replaceFirst pat rep cs)"

text \<open>\<open>filePath.split('/').pop()\<close>: what follows the last \<open>/\<close> (47).\<close>

definition lastSegment :: "ustring \<Rightarrow> ustring" where
  "lastSegment s = rev (takeWhile (\<lambda>c. c \<noteq> 47) (rev s))"

text \<open>The decimal digits of a number, and \<open>s.padStart(2, '0')\<close>.\<close>

function showNat :: "nat \<Rightarrow> ustring" where
  "showNat n = (if n < 10 then [48 + n] else showNat (n div 10) @ [48 + n mod 10])"
  by pat_completeness auto
termination
  by (relation "measure id") auto

declare showNat.simps [simp del]

definition showInt :: "int \<Rightarrow> ustring" where
  "showInt i = (if i < 0 then 45 # showNat (nat (- i)) else showNat (nat i))"

definition padStart2 :: "ustring \<Rightarrow> ustring" where
  "padStart2 s = replicate (2 - length s) 48 @ s"

text \<open>
  What the pipeline takes from outside the repository: the modules found by
  \<open>getBlogPostFiles()\<close>, each with the outcome of its loader (a rejection, or the
  \<open>metadata\<close> of the module, \<open>None\<close> when the module has none); the built-ins
  \<open>new Date(s).getTime()\<close> (\<open>None\<close> for \<open>NaN\<close>), \<open>getFullYear\<close> and \<open>getMonth\<close> (on a time
  value, in the local time zone); and the file content read by \<open>getMarkdownContent\<close>,
  which catches its own errors.
\<close>

datatype moduleResult = Rejects error | Resolves "postMetadata option"

record host =
  blogPostFiles :: "(ustring \<times> moduleResult) list"
  parseDate :: "ustring \<Rightarrow> int option"
  getFullYear :: "int \<Rightarrow> int"
  getMonth :: "int \<Rightarrow> nat"
  getMarkdownContent :: "ustring \<Rightarrow> ustring"

record getAllPostsOptions =
  opt_lang :: "ustring option"
  includeContent :: "bool option"
  includeLocalizedVersions :: "bool option"

record cacheEntry =
  cached_posts :: "processedPost list"
  timestamp :: int

type_synonym postsCache = "ustring \<times> bool \<times> bool \<Rightarrow> cacheEntry option"

definition CACHE_TTL :: int where
  "CACHE_TTL = 1000 * 60 * 5"

text \<open>\<open>{ ...metadata, ...i18nData, i18n: metadata.i18n }\<close>: a field given by the override wins.\<close>

definition mergeLocalized :: "postMetadata \<Rightarrow> fmFields \<Rightarrow> postMetadata" where
  "mergeLocalized m over =
     \<lparr>title = (case title over of Some v \<Rightarrow> Some v | None \<Rightarrow> title m),
      date = (case date over of Some v \<Rightarrow> Some v | None \<Rightarrow> date m),
      slug = (case slug over of Some v \<Rightarrow> Some v | None \<Rightarrow> slug m),
      categories = (case categories over of Some v \<Rightarrow> Some v | None \<Rightarrow> categories m),
      category = (case category over of Some v \<Rightarrow> Some v | None \<Rightarrow> category m),
      tags = (case tags over of Some v \<Rightarrow> Some v | None \<Rightarrow> tags m),
      excerpt = (case excerpt over of Some v \<Rightarrow> Some v | None \<Rightarrow> excerpt m),
      author = (case author over of Some v \<Rightarrow> Some v | None \<Rightarrow> author m),
      readTime = (case readTime over of Some v \<Rightarrow> Some v | None \<Rightarrow> readTime m),
      updated = (case updated over of Some v \<Rightarrow> Some v | None \<Rightarrow> updated m),
      i18n = i18n m\<rparr>"

text \<open>The slug of a module and the \<open>urlPath\<close> derived from a time value and a slug.\<close>

definition moduleSlug :: "ustring \<Rightarrow> postMetadata \<Rightarrow> ustring" where
  "moduleSlug filePath m =
     orElse (slug m)
       (let filenamePart = lastSegment filePath
        in if filenamePart \<noteq> [] then replaceFirst (js ''.md'') [] filenamePart else [])"

definition derivedUrlPath :: "host \<Rightarrow> int \<Rightarrow> ustring \<Rightarrow> ustring" where
  "derivedUrlPath h t s =
     js ''/'' @ showInt (getFullYear h t) @ js ''/'' @
     padStart2 (showNat (getMonth h t + 1)) @ js ''/'' @ s"

text \<open>
  The body of the \<open>map\<close> over the modules, for a module whose loader has resolved: the
  posts it contributes (none for \<open>null\<close>, the base post and its localized versions for an
  array).
\<close>

definition processModule ::
  "blogConfig \<Rightarrow> host \<Rightarrow> ustring \<Rightarrow> bool \<Rightarrow> bool \<Rightarrow> ustring \<Rightarrow> postMetadata option
     \<Rightarrow> processedPost list" where
  "processModule config h lng withContent withLocalized filePath metadata =
     (case metadata of
        None \<Rightarrow> []
      | Some m \<Rightarrow>
          if \<not> truthy (date m) then []
          else
            (case parseDate h (orElse (date m) []) of
               None \<Rightarrow> []
             | Some postDate \<Rightarrow>
                 (let urlPath' = derivedUrlPath h postDate (moduleSlug filePath m);
                      content' = (if withContent then getMarkdownContent h filePath else []);
                      readTime' =
                        (if truthyNum (readTime m)
                         then (case readTime m of Some r \<Rightarrow> r | None \<Rightarrow> NaN)
                         else getPostReadTime (posts_readTime config) (readTime m)
                                (if content' \<noteq> [] then Some content' else None)
                                (excerpt m) noOptions);
                      m' = (if \<not> truthyNum (readTime m) then m\<lparr>readTime := Some readTime'\<rparr>
                            else m);
                      importPath = replaceFirst (js ''@blog/'') (js ''/src/content/Blog/'') filePath;
                      basePost = \<lparr>fm = m', post_date = date m, urlPath = Some urlPath',
                                  path = Some importPath,
                                  content = Some (if withContent then content' else []),
                                  lang = Some (js ''en'')\<rparr>
                  in case (if withLocalized then i18n m' else None) of
                       Some localizations \<Rightarrow>
                         basePost #
                         map (\<lambda>(langCode, i18nData).
                                basePost\<lparr>fm := mergeLocalized m' i18nData,
                                         lang := Some langCode\<rparr>) localizations
                     | None \<Rightarrow>
                         (case (if lng \<noteq> js ''en''
                                then (case i18n m' of
                                        Some localizations \<Rightarrow> map_of localizations lng
                                      | None \<Rightarrow> None)
                                else None) of
                            Some i18nData \<Rightarrow>
                              [basePost\<lparr>fm := mergeLocalized m' i18nData, lang := Some lng\<rparr>]
                          | None \<Rightarrow> [basePost]))))"

text \<open>
  \<open>new Date(post.date).getTime()\<close> in the comparator of the sort; \<open>NaN\<close> does not occur
  there, since every post that reaches the sort has passed the date check.
\<close>

definition postTime :: "host \<Rightarrow> processedPost \<Rightarrow> int" where
  "postTime h post =
     (case post_date post of
        None \<Rightarrow> 0
      | Some d \<Rightarrow> (case parseDate h d of None \<Rightarrow> 0 | Some t \<Rightarrow> t))"

text \<open>
  \<open>Promise.all\<close> over the modules: the first rejection fails the batch, otherwise the
  results are flattened. \<open>Array.prototype.sort\<close> is stable; with the comparator
  \<open>time(b) - time(a)\<close> it is the stable sort by descending time.
\<close>

fun loadModules ::
  "blogConfig \<Rightarrow> host \<Rightarrow> ustring \<Rightarrow> bool \<Rightarrow> bool \<Rightarrow> (ustring \<times> moduleResult) list
     \<Rightarrow> error + processedPost list" where
  "loadModules config h lng withContent withLocalized [] = Inr []"
| "loadModules config h lng withContent withLocalized ((filePath, Rejects e) # rest) = Inl e"
| "loadModules config h lng withContent withLocalized ((filePath, Resolves metadata) # rest) =
     (case loadModules config h lng withContent withLocalized rest of
        Inl e \<Rightarrow> Inl e
      | Inr posts \<Rightarrow>
          Inr (processModule config h lng withContent withLocalized filePath metadata @ posts))"

definition sortPosts :: "host \<Rightarrow> processedPost list \<Rightarrow> processedPost list" where
  "sortPosts h posts = sort_key (\<lambda>post. - postTime h post) posts"

text \<open>
  \<open>getAllPosts(options)\<close> on the cache: \<open>now\<close> and \<open>storeTime\<close> are the two readings of
  \<open>Date.now()\<close>, and the cache key is the triple that \<open>JSON.stringify\<close> encodes.
\<close>

definition getAllPosts ::
  "blogConfig \<Rightarrow> host \<Rightarrow> int \<Rightarrow> int \<Rightarrow> getAllPostsOptions \<Rightarrow> postsCache
     \<Rightarrow> (error + processedPost list) \<times> postsCache" where
  "getAllPosts config h now storeTime options cache =
     (let lng = (case opt_lang options of None \<Rightarrow> js ''en'' | Some l \<Rightarrow> l);
          withContent = (case includeContent options of None \<Rightarrow> False | Some b \<Rightarrow> b);
          withLocalized = (case includeLocalizedVersions options of None \<Rightarrow> False | Some b \<Rightarrow> b);
          cacheKey = (lng, withContent, withLocalized);
          fresh = (case cache cacheKey of
                     None \<Rightarrow> None
                   | Some cached \<Rightarrow>
                       if now - timestamp cached < CACHE_TTL then Some (cached_posts cached)
                       else None)
      in case fresh of
           Some posts \<Rightarrow> (Inr posts, cache)
         | None \<Rightarrow>
             (case loadModules config h lng withContent withLocalized (blogPostFiles h) of
                Inl e \<Rightarrow> (Inl e, cache)
              | Inr flattenedPosts \<Rightarrow>
                  (let sortedPosts = sortPosts h flattenedPosts
                   in (Inr sortedPosts,
                       cache(cacheKey \<mapsto> \<lparr>cached_posts = sortedPosts, timestamp = storeTime\<rparr>)))))"









text \<open>
  A host with four modules: a post named by its file, a post with a \<open>slug\<close> field, a
  post whose date does not parse and a post without a date.
\<close>

definition testHost :: host where
  "testHost =
     \<lparr>blogPostFiles =
        [(js ''@blog/2024/01/hello-world.md'',
          Resolves (Some (emptyFm\<lparr>title := Some (js ''Hello''), date := Some (js ''2024-01-15'')\<rparr>))),
         (js ''@blog/2024/02/custom.md'',
          Resolves (Some (emptyFm\<lparr>title := Some (js ''Custom''), date := Some (js ''2024-02-20''),
             slug := Some (js ''my-slug'')\<rparr>))),
         (js ''@blog/bad.md'',
          Resolves (Some (emptyFm\<lparr>title := Some (js ''Bad''), date := Some (js ''not a date'')\<rparr>))),
         (js ''@blog/none.md'', Resolves (Some (emptyFm\<lparr>title := Some (js ''None'')\<rparr>)))],
      parseDate = (\<lambda>s. if s = js ''2024-01-15'' then Some 1705276800000
                        else if s = js ''2024-02-20'' then Some 1708387200000 else None),
      getFullYear = (\<lambda>t. 2024),
      getMonth = (\<lambda>t. if t < 1706745600000 then 0 else 1),
      getMarkdownContent = (\<lambda>filePath. [])\<rparr>"


section \<open>Route loaders\<close>

definition getPostCategories :: "processedPost \<Rightarrow> ustring list" where
  "getPostCategories post =
     (case categories (fm post) of
        Some cs \<Rightarrow> cs
      | None \<Rightarrow> (if truthy (category (fm post)) then [orElse (category (fm post)) []] else []))"

definition getPostTags :: "processedPost \<Rightarrow> ustring list" where
  "getPostTags post = (case tags (fm post) of Some ts \<Rightarrow> ts | None \<Rightarrow> [])"

definition getOriginalTaxonomyName ::
  "processedPost list \<Rightarrow> (processedPost \<Rightarrow> ustring list) \<Rightarrow> ustring \<Rightarrow> (ustring \<Rightarrow> ustring)
     \<Rightarrow> ustring" where
  "getOriginalTaxonomyName posts extractorFn slugifiedTerm slugifyFn =
     orElse (find (\<lambda>term. slugifyFn term = slugifiedTerm) (concat (map extractorFn posts)))
       slugifiedTerm"

text \<open>\<open>s.replace(/\/$/, '')\<close>: one slash (47) at the end of the string is removed.\<close>

definition stripTrailingSlash :: "ustring \<Rightarrow> ustring" where
  "stripTrailingSlash s = (if s \<noteq> [] \<and> last s = 47 then butlast s else s)"

text \<open>\<open>x || null\<close> for an optional string.\<close>

definition orNull :: "ustring option \<Rightarrow> ustring option" where
  "orNull x = (if truthy x then x else None)"

record categoryInfo =
  info_description :: "ustring option"
  info_image :: "ustring option"
  info_alt :: "ustring option"

record categoryData =
  category_posts :: "processedPost list"
  category_allPosts :: "processedPost list"
  category_name :: ustring
  currentCategory :: ustring
  categoryDescription :: "ustring option"
  categoryImage :: "ustring option"
  categoryImageAlt :: "ustring option"
  category_lang :: ustring

record tagData =
  tag_posts :: "processedPost list"
  tag_allPosts :: "processedPost list"
  tag_name :: ustring
  currentTag :: ustring
  tag_lang :: ustring

text \<open>
  \<open>loadCategory\<close> after its two awaits: \<open>allPosts\<close> is the list that \<open>getAllPosts\<close> has
  resolved to, \<open>categoryDescriptions\<close> the record that \<open>loadCategoryDescriptions\<close> has
  resolved to (read at a key), and \<open>toLowerCase\<close> the built-in, as in \<open>slugify\<close>.
\<close>

definition categoryPage ::
  "(ustring \<Rightarrow> ustring) \<Rightarrow> processedPost list \<Rightarrow> (ustring \<Rightarrow> categoryInfo option) \<Rightarrow> ustring
     \<Rightarrow> ustring \<Rightarrow> error + categoryData" where
  "categoryPage toLowerCase allPosts categoryDescriptions categorySlugParam lng =
     (let slug' = stripTrailingSlash categorySlugParam;
          slugLowerCase = toLowerCase slug';
          info = (case categoryDescriptions slugLowerCase of
                    Some i \<Rightarrow> i
                  | None \<Rightarrow> \<lparr>info_description = None, info_image = None, info_alt = None\<rparr>);
          posts = filterPostsByCategory allPosts slugLowerCase (slugify toLowerCase);
          originalCategory =
            getOriginalTaxonomyName allPosts getPostCategories slugLowerCase (slugify toLowerCase)
      in if posts = [] \<and> originalCategory = []
         then Inl (HttpError (js ''Category '' @ [34] @ slug' @ [34] @
                              js '' not found or has no posts'') 404)
         else Inr \<lparr>category_posts = posts, category_allPosts = allPosts,
                   category_name = orElse (Some originalCategory) slug',
                   currentCategory = orElse (Some originalCategory) slug',
                   categoryDescription = orNull (info_description info),
                   categoryImage = orNull (info_image info),
                   categoryImageAlt = orNull (info_alt info),
                   category_lang = lng\<rparr>)"

definition loadCategory ::
  "blogConfig \<Rightarrow> host \<Rightarrow> int \<Rightarrow> int \<Rightarrow> (ustring \<Rightarrow> ustring) \<Rightarrow> (ustring \<Rightarrow> categoryInfo option)
     \<Rightarrow> ustring \<Rightarrow> ustring \<Rightarrow> postsCache \<Rightarrow> (error + categoryData) \<times> postsCache" where
  "loadCategory config h now storeTime toLowerCase categoryDescriptions categorySlugParam lng cache =
     (if categorySlugParam = [] then (Inl (HttpError (js ''Category not specified'') 404), cache)
      else
        (case getAllPosts config h now storeTime
                \<lparr>opt_lang = Some lng, includeContent = None, includeLocalizedVersions = None\<rparr>
                cache of
           (Inl e, cache') \<Rightarrow> (Inl e, cache')
         | (Inr allPosts, cache') \<Rightarrow>
             (categoryPage toLowerCase allPosts categoryDescriptions categorySlugParam lng,
              cache')))"

definition tagPage ::
  "(ustring \<Rightarrow> ustring) \<Rightarrow> processedPost list \<Rightarrow> ustring \<Rightarrow> ustring \<Rightarrow> error + tagData" where
  "tagPage toLowerCase allPosts tagSlugParam lng =
     (let slug' = stripTrailingSlash tagSlugParam;
          slugLowerCase = toLowerCase slug';
          posts = filterPostsByTag allPosts slugLowerCase (slugify toLowerCase);
          originalTag =
            getOriginalTaxonomyName allPosts getPostTags slugLowerCase (slugify toLowerCase)
      in if posts = [] \<and> originalTag = []
         then Inl (HttpError (js ''Tag '' @ [34] @ slug' @ [34] @
                              js '' not found or has no posts'') 404)
         else Inr \<lparr>tag_posts = posts, tag_allPosts = allPosts,
                   tag_name = orElse (Some originalTag) slug',
                   currentTag = orElse (Some originalTag) slug',
                   tag_lang = lng\<rparr>)"

definition loadTag ::
  "blogConfig \<Rightarrow> host \<Rightarrow> int \<Rightarrow> int \<Rightarrow> (ustring \<Rightarrow> ustring) \<Rightarrow> ustring \<Rightarrow> ustring \<Rightarrow> postsCache
     \<Rightarrow> (error + tagData) \<times> postsCache" where
  "loadTag config h now storeTime toLowerCase tagSlugParam lng cache =
     (if tagSlugParam = [] then (Inl (HttpError (js ''Tag not specified'') 404), cache)
      else
        (case getAllPosts config h now storeTime
                \<lparr>opt_lang = Some lng, includeContent = None, includeLocalizedVersions = None\<rparr>
                cache of
           (Inl e, cache') \<Rightarrow> (Inl e, cache')
         | (Inr allPosts, cache') \<Rightarrow> (tagPage toLowerCase allPosts tagSlugParam lng, cache')))"

text \<open>
  The reading of the specification: a canonical term exists for a slug when some term
  that the extractor finds in some post slugifies to it.
\<close>

definition canonicalTermExists ::
  "processedPost list \<Rightarrow> (processedPost \<Rightarrow> ustring list) \<Rightarrow> ustring \<Rightarrow> (ustring \<Rightarrow> ustring) \<Rightarrow> bool" where
  "canonicalTermExists posts extractorFn s slugifyFn =
     list_ex (\<lambda>post. list_ex (\<lambda>term. slugifyFn term = s) (extractorFn post)) posts"


text \<open>A post without any taxonomy field.\<close>

definition noTaxonomy :: "processedPost \<Rightarrow> bool" where
  "noTaxonomy p = (categories (fm p) = None \<and> category (fm p) = None \<and> tags (fm p) = None)"


section \<open>Properties of the taxonomy filters\<close>

lemma some_opt_iff:
  "some_opt p xs = (\<exists>ys. xs = Some ys \<and> (\<exists>y. y \<in> set ys \<and> p y))"
  by (cases xs) (auto simp: list_ex_iff)

lemma singular_iff:
  "(case c of None \<Rightarrow> False | Some x \<Rightarrow> f x = s) = (\<exists>x. c = Some x \<and> f x = s)"
  by (cases c) auto

lemma in_filterPostsByCategory:
  "post \<in> set (filterPostsByCategory posts s slugifyFn) =
     (post \<in> set posts \<and> inCategory slugifyFn s post)"
  by (auto simp: filterPostsByCategory_def inCategory_def Let_def some_opt_iff singular_iff)

lemma in_filterPostsByTag:
  "post \<in> set (filterPostsByTag posts s slugifyFn) =
     (post \<in> set posts \<and> hasTag slugifyFn s post)"
  by (auto simp: filterPostsByTag_def hasTag_def Let_def some_opt_iff)

text \<open>
  C1. A post for which some tag slugifies to \<open>s\<close> but no category (array entry or singular
  field) does is never in the result of \<open>filterPostsByCategory\<close>; a post for which a
  category slugifies to \<open>s\<close> but no tag does is never in the result of
  \<open>filterPostsByTag\<close>.
\<close>

theorem filter_disambiguation:
  "(hasTag slugifyFn s post \<and> \<not> inCategory slugifyFn s post
      \<longrightarrow> post \<notin> set (filterPostsByCategory posts s slugifyFn)) \<and>
   (inCategory slugifyFn s post \<and> \<not> hasTag slugifyFn s post
      \<longrightarrow> post \<notin> set (filterPostsByTag posts s slugifyFn))"
  by (simp add: in_filterPostsByCategory in_filterPostsByTag)

theorem filter_disambiguation_witness:
  "hasTag id (js ''javascript'') tagPost \<and> \<not> inCategory id (js ''javascript'') tagPost \<and>
   tagPost \<notin> set (filterPostsByCategory [catPost, tagPost] (js ''javascript'') id) \<and>
   inCategory id (js ''javascript'') catPost \<and> \<not> hasTag id (js ''javascript'') catPost \<and>
   catPost \<notin> set (filterPostsByTag [catPost, tagPost] (js ''javascript'') id)"
proof -
  have t: "hasTag id (js ''javascript'') tagPost \<and> \<not> inCategory id (js ''javascript'') tagPost"
    by (simp add: hasTag_def inCategory_def tagPost_def mkPost_def emptyFm_def)
  have c: "inCategory id (js ''javascript'') catPost \<and> \<not> hasTag id (js ''javascript'') catPost"
    by (simp add: hasTag_def inCategory_def catPost_def mkPost_def emptyFm_def)
  from t c filter_disambiguation [of id "js ''javascript''" tagPost "[catPost, tagPost]"]
    filter_disambiguation [of id "js ''javascript''" catPost "[catPost, tagPost]"]
  show ?thesis by blast
qed

text \<open>
  C3. Each filter is extensionally equal to the filter with its exclusion clause deleted:
  \<open>filterPostsByCategory\<close> returns exactly the posts in the category, \<open>filterPostsByTag\<close>
  exactly the posts carrying the tag, in the order of the input.
\<close>

theorem filter_exclusion_redundant:
  "filterPostsByCategory posts s slugifyFn = filterPostsByCategory_simplified posts s slugifyFn \<and>
   filterPostsByTag posts s slugifyFn = filterPostsByTag_simplified posts s slugifyFn \<and>
   filterPostsByCategory posts s slugifyFn = filter (inCategory slugifyFn s) posts \<and>
   filterPostsByTag posts s slugifyFn = filter (hasTag slugifyFn s) posts"
proof -
  have "filterPostsByCategory posts s slugifyFn = filterPostsByCategory_simplified posts s slugifyFn"
    unfolding filterPostsByCategory_def filterPostsByCategory_simplified_def Let_def
    by (rule filter_cong) auto
  moreover have "filterPostsByTag posts s slugifyFn = filterPostsByTag_simplified posts s slugifyFn"
    unfolding filterPostsByTag_def filterPostsByTag_simplified_def Let_def
    by (rule filter_cong) auto
  moreover have "filterPostsByCategory_simplified posts s slugifyFn = filter (inCategory slugifyFn s) posts"
    unfolding filterPostsByCategory_simplified_def
    by (rule filter_cong) (auto simp: inCategory_def some_opt_iff singular_iff)
  moreover have "filterPostsByTag_simplified posts s slugifyFn = filter (hasTag slugifyFn s) posts"
    unfolding filterPostsByTag_simplified_def
    by (rule filter_cong) (auto simp: hasTag_def some_opt_iff)
  ultimately show ?thesis by simp
qed

theorem filter_exclusion_redundant_witness:
  "filterPostsByCategory [catPost, tagPost] (js ''javascript'') id = [catPost] \<and>
   filterPostsByTag [catPost, tagPost] (js ''javascript'') id = [tagPost]"
proof -
  have "filterPostsByCategory_simplified [catPost, tagPost] (js ''javascript'') id = [catPost]"
    by (simp add: filterPostsByCategory_simplified_def catPost_def tagPost_def mkPost_def emptyFm_def)
  moreover have "filterPostsByTag_simplified [catPost, tagPost] (js ''javascript'') id = [tagPost]"
    by (simp add: filterPostsByTag_simplified_def catPost_def tagPost_def mkPost_def emptyFm_def)
  ultimately show ?thesis
    using filter_exclusion_redundant [of "[catPost, tagPost]" "js ''javascript''" id] by simp
qed

section \<open>Properties of the XML escaping\<close>

lemma replaceChar_concat: "replaceChar c r s = concat (map (\<lambda>x. if x = c then r else [x]) s)"
  by (induction s) auto

lemma replaceChar_append: "replaceChar c r (a @ b) = replaceChar c r a @ replaceChar c r b"
  by (induction a) auto

lemma replaceChar_concat_map:
  "replaceChar c r (concat (map f s)) = concat (map (\<lambda>x. replaceChar c r (f x)) s)"
  by (induction s) (auto simp: replaceChar_append)

lemma escapeXml_chars: "escapeXml s = concat (map xmlEntity s)"
proof -
  have "replaceChar 39 (js ''&apos;'')
             (replaceChar 34 (js ''&quot;'')
               (replaceChar 62 (js ''&gt;'')
                 (replaceChar 60 (js ''&lt;'')
                   (replaceChar 38 (js ''&amp;'') s)))) = concat (map xmlEntity s)"
    apply (subst replaceChar_concat[of 38])
    apply (simp only: replaceChar_concat_map)
    apply (rule arg_cong[where f=concat])
    apply (rule map_cong[OF refl])
    apply (simp add: xmlEntity_def js_def)
    done
  thus ?thesis by (simp add: escapeXml_def)
qed

lemma xmlEntity_special:
  "xmlSpecial c \<Longrightarrow> isEntity (xmlEntity c) \<and> hd (xmlEntity c) = 38 \<and>
     set (tl (xmlEntity c)) \<subseteq> {97, 109, 112, 59, 108, 116, 103, 113, 117, 111, 115}"
  unfolding xmlSpecial_def
  by (elim disjE) (simp_all add: xmlEntity_def isEntity_def js_def)

lemma xmlEntity_other: "\<not> xmlSpecial c \<Longrightarrow> xmlEntity c = [c]"
  by (simp add: xmlSpecial_def xmlEntity_def)

lemma xmlEntity_nonempty: "xmlEntity c \<noteq> []"
  by (simp add: xmlEntity_def js_def)

lemma set_xmlEntity_special:
  "xmlSpecial c \<Longrightarrow> set (xmlEntity c) \<subseteq> {38, 97, 109, 112, 59, 108, 116, 103, 113, 117, 111, 115}"
  using xmlEntity_special [of c] xmlEntity_nonempty [of c]
  by (cases "xmlEntity c") auto

lemma escapeXml_no_raw:
  assumes "c \<in> set (escapeXml s)"
  shows "c \<noteq> 60 \<and> c \<noteq> 62 \<and> c \<noteq> 34 \<and> c \<noteq> 39"
proof -
  from assms obtain x where x: "x \<in> set s" "c \<in> set (xmlEntity x)"
    by (auto simp: escapeXml_chars)
  show ?thesis
  proof (cases "xmlSpecial x")
    case True
    from set_xmlEntity_special [OF True] x(2) show ?thesis by auto
  next
    case False
    then have "c = x" using x(2) by (simp add: xmlEntity_other)
    with False show ?thesis by (simp add: xmlSpecial_def)
  qed
qed

lemma amp_in_escapeXml: "38 \<in> set (escapeXml s) \<longleftrightarrow> (\<exists>c\<in>set s. xmlSpecial c)"
proof
  assume "38 \<in> set (escapeXml s)"
  then obtain x where x: "x \<in> set s" "38 \<in> set (xmlEntity x)"
    by (auto simp: escapeXml_chars)
  have "xmlSpecial x"
  proof (rule ccontr)
    assume "\<not> xmlSpecial x"
    then show False using x(2) by (simp add: xmlEntity_other xmlSpecial_def)
  qed
  with x show "\<exists>c\<in>set s. xmlSpecial c" by blast
next
  assume "\<exists>c\<in>set s. xmlSpecial c"
  then obtain x where x: "x \<in> set s" "xmlSpecial x" by blast
  have "38 \<in> set (xmlEntity x)"
    using xmlEntity_special [OF x(2)] xmlEntity_nonempty [of x]
    by (cases "xmlEntity x") auto
  with x(1) show "38 \<in> set (escapeXml s)" by (auto simp: escapeXml_chars)
qed

lemma entity_sublist:
  assumes "c \<in> set s" shows "sublist (xmlEntity c) (escapeXml s)"
proof -
  from assms obtain a b where "s = a @ c # b" by (auto simp: in_set_conv_decomp)
  then have "escapeXml s = escapeXml a @ xmlEntity c @ escapeXml b"
    by (simp add: escapeXml_chars)
  then show ?thesis unfolding sublist_def by blast
qed

lemma amp_starts_entity_aux:
  "i < length (concat (map xmlEntity s)) \<Longrightarrow> concat (map xmlEntity s) ! i = 38 \<Longrightarrow>
   \<exists>e. isEntity e \<and> prefix e (drop i (concat (map xmlEntity s)))"
proof (induction s arbitrary: i)
  case Nil
  then show ?case by simp
next
  case (Cons c cs)
  let ?h = "xmlEntity c" and ?t = "concat (map xmlEntity cs)"
  show ?case
  proof (cases "i < length ?h")
    case True
    then have at: "?h ! i = 38" using Cons.prems(2) by (simp add: nth_append)
    have sp: "xmlSpecial c"
    proof (rule ccontr)
      assume n: "\<not> xmlSpecial c"
      with True at have "c = 38" by (simp add: xmlEntity_other)
      with n show False by (simp add: xmlSpecial_def)
    qed
    have "i = 0"
    proof (rule ccontr)
      assume "i \<noteq> 0"
      then obtain j where j: "i = Suc j" by (cases i) auto
      from xmlEntity_nonempty [of c] obtain a as where h: "?h = a # as" by (cases ?h) auto
      with j True at have "38 \<in> set as" by (auto simp: in_set_conv_nth)
      moreover have "set as \<subseteq> {97, 109, 112, 59, 108, 116, 103, 113, 117, 111, 115}"
        using xmlEntity_special [OF sp] h by simp
      ultimately show False by auto
    qed
    with xmlEntity_special [OF sp] show ?thesis by (intro exI[of _ ?h]) simp
  next
    case False
    then have i: "i - length ?h < length ?t" "?t ! (i - length ?h) = 38"
      using Cons.prems by (auto simp: nth_append)
    from Cons.IH[OF this] obtain e where "isEntity e" "prefix e (drop (i - length ?h) ?t)"
      by blast
    with False show ?thesis by (intro exI[of _ e]) simp
  qed
qed


lemma lastIndexOf_absent: "c \<notin> set s \<Longrightarrow> lastIndexOf c s = - 1"
  by (induction s) (auto simp: Let_def)

lemma set_uniq_aux:
  "set (foldl (\<lambda>acc x. if x \<in> set acc then acc else acc @ [x]) a xs) = set a \<union> set xs"
  by (induction xs arbitrary: a) auto

lemma set_uniq: "set (uniq xs) = set xs"
  by (simp add: uniq_def set_uniq_aux)

lemma orElse_Some: "s \<noteq> [] \<Longrightarrow> orElse (Some s) b = s"
  by (simp add: orElse_def)

lemma distinct_uniq_aux:
  "distinct a \<Longrightarrow> distinct (foldl (\<lambda>acc x. if x \<in> set acc then acc else acc @ [x]) a xs)"
  by (induction xs arbitrary: a) auto

lemma distinct_uniq: "distinct (uniq xs)"
  by (simp add: uniq_def distinct_uniq_aux)

lemma short_excerpt:
  assumes "excerpt (fm post) = Some e" "e \<noteq> []" "length e \<le> 300"
  shows "rssExcerpt config post = e"
  using assms by (simp add: rssExcerpt_def getPostExcerpt_def orElse_def Let_def)

lemma lastIndexOf_last:
  "lastIndexOf c s = r \<Longrightarrow>
     (r = - 1 \<and> c \<notin> set s) \<or>
     (0 \<le> r \<and> nat r < length s \<and> s ! nat r = c \<and> c \<notin> set (drop (Suc (nat r)) s))"
proof (induction s arbitrary: r)
  case Nil
  then show ?case by simp
next
  case (Cons x xs)
  define q where "q = lastIndexOf c xs"
  from Cons.IH [OF q_def [symmetric]] have ih:
    "(q = - 1 \<and> c \<notin> set xs) \<or>
     (0 \<le> q \<and> nat q < length xs \<and> xs ! nat q = c \<and> c \<notin> set (drop (Suc (nat q)) xs))" .
  from Cons.prems have r: "r = (if 0 \<le> q then q + 1 else if x = c then 0 else - 1)"
    by (auto simp: q_def Let_def)
  show ?case
  proof (cases "0 \<le> q")
    case True
    with ih have a: "nat q < length xs" "xs ! nat q = c" "c \<notin> set (drop (Suc (nat q)) xs)"
      by auto
    from True r have "r = q + 1" by simp
    then have n: "nat r = Suc (nat q)" using True by simp
    from True \<open>r = q + 1\<close> a show ?thesis unfolding n by simp
  next
    case False
    with ih have n: "c \<notin> set xs" by auto
    from False r n show ?thesis by (cases "x = c") simp_all
  qed
qed

lemma long_excerpt:
  assumes "excerpt (fm post) = Some e" "300 < length e"
  shows "\<exists>k. rssExcerpt config post = take k e @ js ''...'' \<and>
             ((0 < k \<and> k < 300 \<and> e ! k = 32 \<and> 32 \<notin> set (drop (Suc k) (take 300 e))) \<or>
              (k = 300 \<and> 32 \<notin> set (drop 1 (take 300 e))))"
proof -
  define t where "t = take 300 e"
  define q where "q = lastIndexOf 32 t"
  have lt: "length t = 300" using assms(2) by (simp add: t_def)
  from assms have ne: "e \<noteq> []" by auto
  have g: "getPostExcerpt config post (Some 300) =
      (if 0 < q then take (nat q) t else t) @ js ''...''"
    using assms ne by (simp add: getPostExcerpt_def orElse_def Let_def substring0_def t_def q_def)
  then have r: "rssExcerpt config post = (if 0 < q then take (nat q) t else t) @ js ''...''"
    by (simp add: rssExcerpt_def orElse_def js_def)
  from lastIndexOf_last [OF q_def [symmetric]] have q:
    "(q = - 1 \<and> 32 \<notin> set t) \<or>
     (0 \<le> q \<and> nat q < length t \<and> t ! nat q = 32 \<and> 32 \<notin> set (drop (Suc (nat q)) t))" .
  show ?thesis
  proof (cases "0 < q")
    case True
    with q have a: "nat q < 300" "t ! nat q = 32" "32 \<notin> set (drop (Suc (nat q)) t)"
      using lt by auto
    from a(1) have "take (nat q) t = take (nat q) e" by (simp add: t_def min_def)
    moreover from a(1,2) have "e ! nat q = 32" by (simp add: t_def)
    ultimately show ?thesis using r True a unfolding t_def [symmetric]
      by (intro exI [of _ "nat q"]) simp
  next
    case False
    have "32 \<notin> set (drop 1 t)"
    proof (cases "q = 0")
      case True
      with q show ?thesis by simp
    next
      case nz: False
      with False q have "32 \<notin> set t" by auto
      then show ?thesis by (auto dest: in_set_dropD)
    qed
    with r False show ?thesis unfolding t_def [symmetric]
      by (intro exI [of _ 300]) (simp add: t_def)
  qed
qed

lemma rss_categories:
  "\<exists>terms. getRssCategoriesXml post =
       concat (map (\<lambda>c. js ''    <category>'' @ escapeXml c @ js ''</category>'' @ [10]) terms) \<and>
     distinct terms \<and>
     set terms =
       (case categories (fm post) of
          Some cs \<Rightarrow> set cs
        | None \<Rightarrow> (case category (fm post) of
                    Some c \<Rightarrow> if c = [] then {} else {c}
                  | None \<Rightarrow> {})) \<union>
       (case tags (fm post) of Some ts \<Rightarrow> set ts | None \<Rightarrow> {})"
  unfolding getRssCategoriesXml_def Let_def
  by (intro exI [of _ "uniq ((case categories (fm post) of
               Some cs \<Rightarrow> cs
             | None \<Rightarrow> (if truthy (category (fm post)) then [orElse (category (fm post)) []] else [])) @
            (case tags (fm post) of Some ts \<Rightarrow> ts | None \<Rightarrow> []))"])
     (auto simp: set_uniq distinct_uniq orElse_def split: option.splits)

lemma item_in_feed:
  assumes "truthy (siteUrl options)" "post \<in> set (limitedPosts posts options)"
  shows "\<exists>feed. generateRssFeed config toUTCString now posts options = Inr feed \<and>
           sublist (rssItem config toUTCString (baseUrlOf (orElse (siteUrl options) [])) post) feed"
proof -
  let ?item = "rssItem config toUTCString (baseUrlOf (orElse (siteUrl options) []))"
  from assms(2) obtain a b where "limitedPosts posts options = a @ post # b"
    by (auto simp: in_set_conv_decomp)
  then have "concat (rssItems config toUTCString posts options) =
      concat (map ?item a) @ ?item post @ concat (map ?item b)"
    by (simp add: rssItems_def)
  then have "rssHeader config now options @ concat (rssItems config toUTCString posts options) @
        js ''</channel>'' @ [10] @ js ''</rss>'' =
      (rssHeader config now options @ concat (map ?item a)) @ ?item post @
      (concat (map ?item b) @ js ''</channel>'' @ [10] @ js ''</rss>'')"
    by simp
  then have "sublist (?item post)
      (rssHeader config now options @ concat (rssItems config toUTCString posts options) @
        js ''</channel>'' @ [10] @ js ''</rss>'')"
    unfolding sublist_def by blast
  with assms(1) show ?thesis by (simp add: generateRssFeed_def)
qed

lemma item_elements:
  "\<exists>before between after.
      rssItem config toUTCString baseUrl post =
        before @ js ''<title>'' @ escapeXml (rssTitle post) @ js ''</title>'' @ between @
        js ''<description>'' @ escapeXml (rssExcerpt config post) @ js ''</description>'' @ [10] @
        js ''    <author>'' @ escapeXml (rssAuthor config post) @ js ''</author>'' @ [10] @
        getRssCategoriesXml post @ after"
  unfolding rssItem_def Let_def
  apply (rule exI [of _ "js ''  <item>'' @ [10] @ js ''    ''"])
  apply (rule exI [of _ "[10] @
         js ''    <link>'' @ (baseUrl @ getPostUrl config post) @ js ''</link>'' @ [10] @
         js ''    <guid isPermaLink='' @ [34] @ js ''true'' @ [34] @ js ''>'' @ (baseUrl @ getPostUrl config post) @
           js ''</guid>'' @ [10] @
         js ''    <pubDate>'' @ toUTCString (post_date post) @ js ''</pubDate>'' @ [10] @
         (if truthy (if truthy (updated (fm post)) then Some (toUTCString (updated (fm post))) else None)
          then js ''    <lastBuildDate>'' @ orElse (if truthy (updated (fm post)) then Some (toUTCString (updated (fm post))) else None) [] @ js ''</lastBuildDate>'' @ [10]
          else []) @ [10] @ js ''    ''"])
  apply (rule exI [of _ "[10] @ js ''  </item>'' @ [10]"])
  apply (simp add: js_def)
  done

text \<open>
  C6 (as amended). \<open>escapeXml\<close> replaces every code unit exactly once (\<open>&\<close> first, so no
  entity it has produced is escaped again): its result has no raw \<open><\<close>, \<open>>\<close>, double or
  single quote, every \<open>&\<close> in it starts one of the five entities, and the entity of every
  special character of the input occurs in it. The feed holds the item of every post it
  keeps. In the item of a post, the title element holds the escaped title, the author
  element the escaped author name (the name of the blog when the post has none), and the
  category elements hold, one each, the escaped terms of the post: the entries of its
  \<open>categories\<close> array, or its singular \<open>category\<close> when it has no array, and its tags,
  each term once. The description element holds the escaped excerpt as \<open>getPostExcerpt\<close>
  cuts it at 300 code units: the whole excerpt when it has at most 300; otherwise the
  code units before the last space among its first 300 (all 300 when none of them but
  perhaps the first is a space), followed by three dots.
\<close>

theorem rss_escaping:
  "escapeXml s = concat (map xmlEntity s) \<and>
   (\<forall>c. c \<in> set (escapeXml s) \<longrightarrow> c \<noteq> 60 \<and> c \<noteq> 62 \<and> c \<noteq> 34 \<and> c \<noteq> 39) \<and>
   (\<forall>i. i < length (escapeXml s) \<and> escapeXml s ! i = 38 \<longrightarrow>
        (\<exists>e. isEntity e \<and> prefix e (drop i (escapeXml s)))) \<and>
   (\<forall>c. c \<in> set s \<and> xmlSpecial c \<longrightarrow> isEntity (xmlEntity c) \<and> sublist (xmlEntity c) (escapeXml s)) \<and>
   (truthy (siteUrl options) \<and> post \<in> set (limitedPosts posts options) \<longrightarrow>
      (\<exists>feed. generateRssFeed config toUTCString now posts options = Inr feed \<and>
         sublist (rssItem config toUTCString (baseUrlOf (orElse (siteUrl options) [])) post) feed)) \<and>
   (\<exists>before between after.
      rssItem config toUTCString baseUrl post =
        before @ js ''<title>'' @ escapeXml (rssTitle post) @ js ''</title>'' @ between @
        js ''<description>'' @ escapeXml (rssExcerpt config post) @ js ''</description>'' @ [10] @
        js ''    <author>'' @ escapeXml (rssAuthor config post) @ js ''</author>'' @ [10] @
        getRssCategoriesXml post @ after) \<and>
   (\<forall>t. title (fm post) = Some t \<and> t \<noteq> [] \<longrightarrow> rssTitle post = t) \<and>
   (\<forall>a. author (fm post) = Some a \<and> name a \<noteq> [] \<longrightarrow> rssAuthor config post = name a) \<and>
   (author (fm post) = None \<and> cfg_name config \<noteq> [] \<longrightarrow> rssAuthor config post = cfg_name config) \<and>
   (\<forall>e. excerpt (fm post) = Some e \<and> e \<noteq> [] \<and> length e \<le> 300 \<longrightarrow> rssExcerpt config post = e) \<and>
   (\<forall>e. excerpt (fm post) = Some e \<and> 300 < length e \<longrightarrow>
      (\<exists>k. rssExcerpt config post = take k e @ js ''...'' \<and>
           ((0 < k \<and> k < 300 \<and> e ! k = 32 \<and> 32 \<notin> set (drop (Suc k) (take 300 e))) \<or>
            (k = 300 \<and> 32 \<notin> set (drop 1 (take 300 e)))))) \<and>
   (\<exists>terms. getRssCategoriesXml post =
       concat (map (\<lambda>c. js ''    <category>'' @ escapeXml c @ js ''</category>'' @ [10]) terms) \<and>
     distinct terms \<and>
     set terms =
       (case categories (fm post) of
          Some cs \<Rightarrow> set cs
        | None \<Rightarrow> (case category (fm post) of
                    Some c \<Rightarrow> if c = [] then {} else {c}
                  | None \<Rightarrow> {})) \<union>
       (case tags (fm post) of Some ts \<Rightarrow> set ts | None \<Rightarrow> {}))"
proof -
  have 1: "escapeXml s = concat (map xmlEntity s)" by (rule escapeXml_chars)
  have 2: "\<forall>c. c \<in> set (escapeXml s) \<longrightarrow> c \<noteq> 60 \<and> c \<noteq> 62 \<and> c \<noteq> 34 \<and> c \<noteq> 39"
    using escapeXml_no_raw by blast
  have 3: "\<forall>i. i < length (escapeXml s) \<and> escapeXml s ! i = 38 \<longrightarrow>
        (\<exists>e. isEntity e \<and> prefix e (drop i (escapeXml s)))"
    using amp_starts_entity_aux [of _ s] by (simp add: escapeXml_chars)
  have 4: "\<forall>c. c \<in> set s \<and> xmlSpecial c \<longrightarrow> isEntity (xmlEntity c) \<and> sublist (xmlEntity c) (escapeXml s)"
    using xmlEntity_special entity_sublist by blast
  have 5: "truthy (siteUrl options) \<and> post \<in> set (limitedPosts posts options) \<longrightarrow>
      (\<exists>feed. generateRssFeed config toUTCString now posts options = Inr feed \<and>
         sublist (rssItem config toUTCString (baseUrlOf (orElse (siteUrl options) [])) post) feed)"
    using item_in_feed by blast
  note 6 = item_elements [of config toUTCString baseUrl post]
  have 7: "\<forall>t. title (fm post) = Some t \<and> t \<noteq> [] \<longrightarrow> rssTitle post = t"
    by (simp add: rssTitle_def orElse_def)
  have 8: "\<forall>a. author (fm post) = Some a \<and> name a \<noteq> [] \<longrightarrow> rssAuthor config post = name a"
    by (simp add: rssAuthor_def orElse_def)
  have 9: "author (fm post) = None \<and> cfg_name config \<noteq> [] \<longrightarrow> rssAuthor config post = cfg_name config"
    by (simp add: rssAuthor_def orElse_def)
  have 10: "\<forall>e. excerpt (fm post) = Some e \<and> e \<noteq> [] \<and> length e \<le> 300 \<longrightarrow> rssExcerpt config post = e"
    using short_excerpt by blast
  have 11: "\<forall>e. excerpt (fm post) = Some e \<and> 300 < length e \<longrightarrow>
      (\<exists>k. rssExcerpt config post = take k e @ js ''...'' \<and>
           ((0 < k \<and> k < 300 \<and> e ! k = 32 \<and> 32 \<notin> set (drop (Suc k) (take 300 e))) \<or>
            (k = 300 \<and> 32 \<notin> set (drop 1 (take 300 e)))))"
    using long_excerpt by blast
  note 12 = rss_categories [of post]
  from 1 2 3 4 5 6 7 8 9 10 11 12 show ?thesis by (intro conjI)
qed

lemma sublist_set: "sublist xs ys \<Longrightarrow> set xs \<subseteq> set ys"
  by (auto simp: sublist_def)

text \<open>
  The claim as stated fails for an excerpt longer than 300 code units: the excerpt of
  \<open>longExcerptPost\<close> contains \<open><\<close>, which is cut off before escaping, so the description
  holds no \<open>&lt;\<close>.
\<close>

theorem rss_escaping_counterexample:
  "excerpt (fm longExcerptPost) = Some (replicate 300 97 @ [60]) \<and>
   60 \<in> set (replicate 300 97 @ [60]) \<and> xmlSpecial 60 \<and>
   rssExcerpt testConfig longExcerptPost = replicate 300 97 @ js ''...'' \<and>
   \<not> sublist (js ''&lt;'') (escapeXml (rssExcerpt testConfig longExcerptPost))"
proof -
  have e: "excerpt (fm longExcerptPost) = Some (replicate 300 97 @ [60])"
    by (simp add: longExcerptPost_def mkPost_def emptyFm_def)
  have l: "lastIndexOf 32 (replicate 300 97) = - 1"
    by (rule lastIndexOf_absent) simp
  have r: "rssExcerpt testConfig longExcerptPost = replicate 300 97 @ js ''...''"
    by (simp add: rssExcerpt_def getPostExcerpt_def e orElse_def Let_def substring0_def l)
  have "38 \<notin> set (escapeXml (replicate 300 97 @ js ''...''))"
    by (simp add: amp_in_escapeXml xmlSpecial_def js_def)
  then have "\<not> sublist (js ''&lt;'') (escapeXml (rssExcerpt testConfig longExcerptPost))"
    using sublist_set [of "js ''&lt;''" "escapeXml (replicate 300 97 @ js ''...'')"]
    by (auto simp: r js_def)
  with e r show ?thesis by (simp add: xmlSpecial_def)
qed


theorem rss_escaping_witness:
  "60 \<in> set (js ''a<b&c'') \<and> xmlSpecial 60 \<and>
   sublist (js ''&lt;'') (escapeXml (js ''a<b&c'')) \<and>
   rssTitle specialPost = js ''Q&A'' \<and>
   rssAuthor testConfig specialPost = js ''O'' @ [39] @ js ''Neil'' \<and>
   rssExcerpt testConfig specialPost = js ''1 < 2'' \<and>
   truthy (siteUrl testOptions) \<and> specialPost \<in> set (limitedPosts [specialPost] testOptions) \<and>
   (\<exists>feed. generateRssFeed testConfig (\<lambda>d. []) [] [specialPost] testOptions = Inr feed \<and>
      sublist (rssItem testConfig (\<lambda>d. []) (baseUrlOf (orElse (siteUrl testOptions) [])) specialPost)
        feed) \<and>
   getRssCategoriesXml specialPost =
     js ''    <category>'' @ escapeXml (js ''R&D'') @ js ''</category>'' @ [10] \<and>
   excerpt (fm spacedExcerptPost) = Some (replicate 290 97 @ [32] @ replicate 20 60) \<and>
   300 < length (replicate 290 (97::nat) @ [32] @ replicate 20 60) \<and>
   rssExcerpt testConfig spacedExcerptPost = replicate 290 97 @ js ''...''"
proof -
  note h = rss_escaping [of "js ''a<b&c''" testOptions specialPost "[specialPost]" testConfig
      "\<lambda>d. []" "[]" "baseUrlOf (orElse (siteUrl testOptions) [])"]
  have a: "60 \<in> set (js ''a<b&c'')" "xmlSpecial 60" "xmlEntity 60 = js ''&lt;''"
    by (simp_all add: js_def xmlSpecial_def xmlEntity_def)
  have t: "title (fm specialPost) = Some (js ''Q&A'')" "js ''Q&A'' \<noteq> []"
    by (simp_all add: specialPost_def mkPost_def emptyFm_def js_def)
  have u: "author (fm specialPost) = Some \<lparr>name = js ''O'' @ [39] @ js ''Neil'', avatar = None, url = None\<rparr>"
    by (simp add: specialPost_def mkPost_def emptyFm_def)
  have e: "excerpt (fm specialPost) = Some (js ''1 < 2'')" "js ''1 < 2'' \<noteq> []" "length (js ''1 < 2'') \<le> 300"
    by (simp_all add: specialPost_def mkPost_def emptyFm_def js_def)
  have c: "categories (fm specialPost) = Some [js ''R&D'']" "tags (fm specialPost) = None"
    by (simp_all add: specialPost_def mkPost_def emptyFm_def)
  have o: "truthy (siteUrl testOptions)"
    by (simp add: testOptions_def js_def)
  have l: "specialPost \<in> set (limitedPosts [specialPost] testOptions)"
    by (simp add: limitedPosts_def slice0_def testOptions_def specialPost_def mkPost_def
        emptyFm_def js_def)
  from h [THEN conjunct2, THEN conjunct2, THEN conjunct2, THEN conjunct1] a have 1: "sublist (js ''&lt;'') (escapeXml (js ''a<b&c''))" by metis
  from h [THEN conjunct2, THEN conjunct2, THEN conjunct2, THEN conjunct2, THEN conjunct2, THEN conjunct2, THEN conjunct1] t have 2: "rssTitle specialPost = js ''Q&A''" by blast
  from h [THEN conjunct2, THEN conjunct2, THEN conjunct2, THEN conjunct2, THEN conjunct2, THEN conjunct2, THEN conjunct2, THEN conjunct1] u have 3: "rssAuthor testConfig specialPost = js ''O'' @ [39] @ js ''Neil''"
    by (simp add: js_def)
  from h [THEN conjunct2, THEN conjunct2, THEN conjunct2, THEN conjunct2, THEN conjunct2, THEN conjunct2, THEN conjunct2, THEN conjunct2, THEN conjunct2, THEN conjunct1] e have 4: "rssExcerpt testConfig specialPost = js ''1 < 2''" by blast
  from h [THEN conjunct2, THEN conjunct2, THEN conjunct2, THEN conjunct2, THEN conjunct1] o l have 5: "\<exists>feed. generateRssFeed testConfig (\<lambda>d. []) [] [specialPost] testOptions = Inr feed \<and>
      sublist (rssItem testConfig (\<lambda>d. []) (baseUrlOf (orElse (siteUrl testOptions) [])) specialPost)
        feed" by blast
  from h [THEN conjunct2, THEN conjunct2, THEN conjunct2, THEN conjunct2, THEN conjunct2, THEN conjunct2, THEN conjunct2, THEN conjunct2, THEN conjunct2, THEN conjunct2, THEN conjunct2] obtain terms where g: "getRssCategoriesXml specialPost =
       concat (map (\<lambda>c. js ''    <category>'' @ escapeXml c @ js ''</category>'' @ [10]) terms)"
     "distinct terms" "set terms = {js ''R&D''}"
    unfolding c by auto
  from g(2,3) have "terms = [js ''R&D'']"
    by (cases terms) (auto simp: doubleton_eq_iff dest: subset_singletonD)
  with g(1) have 6: "getRssCategoriesXml specialPost =
     js ''    <category>'' @ escapeXml (js ''R&D'') @ js ''</category>'' @ [10]" by simp
  note k = rss_escaping [of "[]" testOptions spacedExcerptPost "[]" testConfig "\<lambda>d. []" "[]" "[]"]
  have x: "excerpt (fm spacedExcerptPost) = Some (replicate 290 97 @ [32] @ replicate 20 60)"
    by (simp add: spacedExcerptPost_def mkPost_def emptyFm_def)
  have y: "300 < length (replicate 290 (97::nat) @ [32] @ replicate 20 60)" by simp
  note k11 = k [THEN conjunct2, THEN conjunct2, THEN conjunct2, THEN conjunct2, THEN conjunct2, THEN conjunct2, THEN conjunct2, THEN conjunct2, THEN conjunct2, THEN conjunct2, THEN conjunct1]
  from k11 [THEN spec, THEN mp, OF conjI [OF x y]] obtain j where j: "rssExcerpt testConfig spacedExcerptPost =
        take j (replicate 290 97 @ [32] @ replicate 20 60) @ js ''...''"
      "(0 < j \<and> j < 300 \<and> (replicate 290 97 @ [32] @ replicate 20 60) ! j = (32::nat) \<and>
         (32::nat) \<notin> set (drop (Suc j) (take 300 (replicate 290 97 @ [32] @ replicate 20 60)))) \<or>
       (j = 300 \<and> (32::nat) \<notin> set (drop 1 (take 300 (replicate 290 97 @ [32] @ replicate 20 60))))"
    by blast
  have "j = 290"
  proof -
    have n: "(replicate 290 (97::nat) @ [32] @ replicate 20 60) ! i = 32 \<longleftrightarrow> i = 290"
      if "i < 311" for i
      using that by (auto simp: nth_append nth_Cons split: nat.splits)
    have "32 \<in> set (drop 1 (take 300 (replicate 290 (97::nat) @ [32] @ replicate 20 60)))"
      by simp
    with j(2) have "j < 300" "(replicate 290 97 @ [32] @ replicate 20 60) ! j = (32::nat)"
      by auto
    with n [of j] show ?thesis by simp
  qed
  with j(1) have 7: "rssExcerpt testConfig spacedExcerptPost = replicate 290 97 @ js ''...''"
    by simp
  from a(1,2) 1 2 3 4 o l 5 6 x y 7 show ?thesis by (intro conjI)
qed

section \<open>Properties of the RSS item list\<close>





















section \<open>Properties of slugify\<close>

lemma is_space_bounds: "is_space c \<Longrightarrow> c \<le> 32 \<or> 160 \<le> c"
  unfolding is_space_def by arith

lemma slugChar_bounds: "slugChar c \<Longrightarrow> 45 \<le> c \<and> c \<le> 122 \<and> \<not> (65 \<le> c \<and> c \<le> 90)"
  unfolding slugChar_def by arith

lemma slugChar_word: "slugChar c \<Longrightarrow> is_word c \<or> c = 45"
  unfolding slugChar_def is_word_def by arith

lemma word_slugChar: "is_word c \<or> c = 45 \<Longrightarrow> \<not> (65 \<le> c \<and> c \<le> 90) \<Longrightarrow> slugChar c"
  unfolding slugChar_def is_word_def by arith

lemma set_trim: "set (trim s) \<subseteq> set s"
proof -
  have "set (trim s) = set (dropWhile is_space (rev (dropWhile is_space s)))"
    by (simp add: trim_def)
  also have "\<dots> \<subseteq> set (rev (dropWhile is_space s))"
    by (auto dest: set_dropWhileD)
  also have "\<dots> \<subseteq> set s"
    by (auto dest: set_dropWhileD)
  finally show ?thesis .
qed

lemma set_replaceRuns: "set (replaceRuns p r s) \<subseteq> set s \<union> set r"
  by (induction p r s rule: replaceRuns.induct) (auto dest: set_dropWhileD)

lemma collapse_head: "\<exists>r. collapseHyphens (c # cs) = c # r"
  by (cases cs) auto

lemma set_collapseHyphens: "set (collapseHyphens s) \<subseteq> set s"
  by (induction s rule: collapseHyphens.induct) (auto dest: set_dropWhileD)

lemma dropWhile_hyphen_cases:
  "dropWhile (\<lambda>x. x = 45) cs = [] \<or>
   (\<exists>h t. dropWhile (\<lambda>x. x = 45) cs = h # t \<and> h \<noteq> (45::nat))"
proof (cases "dropWhile (\<lambda>x. x = 45) cs")
  case Nil
  then show ?thesis by blast
next
  case (Cons h t)
  then have "h \<noteq> 45" using hd_dropWhile [of "\<lambda>x. x = 45" cs] by auto
  with Cons show ?thesis by blast
qed

lemma collapse_idem: "collapseHyphens (collapseHyphens s) = collapseHyphens s"
proof (induction s rule: collapseHyphens.induct)
  case (3 a b cs)
  show ?case
  proof (cases "a = 45 \<and> b = 45")
    case True
    define d where "d = dropWhile (\<lambda>x. x = 45) cs"
    have IH: "collapseHyphens (collapseHyphens d) = collapseHyphens d"
      using 3(1) True by (simp add: d_def)
    have step: "collapseHyphens (a # b # cs) = 45 # collapseHyphens d"
      using True by (simp add: d_def)
    have dc: "d = [] \<or> (\<exists>h t. d = h # t \<and> h \<noteq> 45)"
      unfolding d_def by (rule dropWhile_hyphen_cases)
    then have "collapseHyphens (45 # collapseHyphens d) = 45 # collapseHyphens d"
    proof (elim disjE exE conjE)
      assume "d = []"
      then show ?thesis by simp
    next
      fix h t assume ht: "d = h # t" "h \<noteq> 45"
      from collapse_head [of h t] obtain r where r: "collapseHyphens (h # t) = h # r" by blast
      have "collapseHyphens (45 # h # r) = 45 # collapseHyphens (h # r)" using ht(2) by simp
      with IH r ht(1) show ?thesis by simp
    qed
    with step show ?thesis by simp
  next
    case False
    have IH: "collapseHyphens (collapseHyphens (b # cs)) = collapseHyphens (b # cs)"
      using 3(2) False by simp
    from collapse_head [of b cs] obtain r where r: "collapseHyphens (b # cs) = b # r" by blast
    have s1: "collapseHyphens (a # b # cs) = a # collapseHyphens (b # cs)"
      using False by auto
    have s2: "collapseHyphens (a # b # r) = a # collapseHyphens (b # r)"
      using False by auto
    from s1 s2 r IH show ?thesis by simp
  qed
qed simp_all

lemma collapse_no_double: "\<not> sublist [45, 45] (collapseHyphens s)"
proof (induction s rule: collapseHyphens.induct)
  case (3 a b cs)
  show ?case
  proof (cases "a = 45 \<and> b = 45")
    case True
    define d where "d = dropWhile (\<lambda>x. x = 45) cs"
    have IH: "\<not> sublist [45, 45] (collapseHyphens d)" using 3(1) True by (simp add: d_def)
    have step: "collapseHyphens (a # b # cs) = 45 # collapseHyphens d"
      using True by (simp add: d_def)
    have dc: "d = [] \<or> (\<exists>h t. d = h # t \<and> h \<noteq> 45)"
      unfolding d_def by (rule dropWhile_hyphen_cases)
    then have "\<not> prefix [45, 45] (45 # collapseHyphens d)"
    proof (elim disjE exE conjE)
      assume "d = []"
      then show ?thesis by simp
    next
      fix h t assume ht: "d = h # t" "h \<noteq> 45"
      from collapse_head [of h t] obtain r where r: "collapseHyphens (h # t) = h # r" by blast
      with ht show ?thesis by simp
    qed
    with IH step show ?thesis by (simp add: sublist_Cons_right)
  next
    case False
    have IH: "\<not> sublist [45, 45] (collapseHyphens (b # cs))" using 3(2) False by simp
    from collapse_head [of b cs] obtain r where r: "collapseHyphens (b # cs) = b # r" by blast
    with False IH show ?thesis by (auto simp add: sublist_Cons_right)
  qed
qed (simp_all add: sublist_Cons_right)

lemma replaceRuns_none: "\<forall>c\<in>set s. \<not> p c \<Longrightarrow> replaceRuns p r s = s"
  by (induction s) auto

lemma dropWhile_none: "\<forall>c\<in>set s. \<not> p c \<Longrightarrow> dropWhile p s = s"
  by (cases s) auto

lemma trim_none: "\<forall>c\<in>set s. \<not> is_space c \<Longrightarrow> trim s = s"
  by (simp add: trim_def dropWhile_none)

lemma collapse_fixed: "\<not> sublist [45, 45] s \<Longrightarrow> collapseHyphens s = s"
proof (induction s rule: collapseHyphens.induct)
  case (3 a b cs)
  then have n: "\<not> (a = 45 \<and> b = 45)" by (auto simp: sublist_Cons_right)
  moreover have "\<not> sublist [45, 45] (b # cs)" using 3(3) by (auto simp: sublist_Cons_right)
  ultimately show ?case using 3(2) by auto
qed simp_all

lemma slugify_chars:
  assumes "lowerCaseFacts lc"
  shows "list_all slugChar (slugify lc x)"
proof -
  have up: "\<forall>c\<in>set (lc x). \<not> (65 \<le> c \<and> c \<le> 90)"
    using assms by (simp add: lowerCaseFacts_def list_all_iff)
  have sub: "set (replaceRuns is_space (js ''-'') (trim (lc x))) \<subseteq> set (lc x) \<union> {45}"
    using set_replaceRuns [of is_space "js ''-''" "trim (lc x)"] set_trim [of "lc x"]
    by (auto simp: js_def)
  have "slugChar c" if "c \<in> set (filter (\<lambda>c. is_word c \<or> c = 45)
         (replaceRuns is_space (js ''-'') (trim (lc x))))" for c
  proof -
    from that have w: "is_word c \<or> c = 45" and "c \<in> set (lc x) \<union> {45}" using sub by auto
    then have "\<not> (65 \<le> c \<and> c \<le> 90)" using up by auto
    with w show ?thesis by (rule word_slugChar)
  qed
  then show ?thesis
    using set_collapseHyphens unfolding slugify_def list_all_iff by blast
qed

lemma slugify_fixed:
  assumes "lowerCaseFacts lc" "list_all slugChar s" "\<not> sublist [45, 45] s"
  shows "slugify lc s = s"
proof -
  have c: "\<forall>c\<in>set s. slugChar c" using assms(2) by (simp add: list_all_iff)
  then have "list_all (\<lambda>c. c < 256) s" using slugChar_bounds by (fastforce simp: list_all_iff)
  then have "lc s = map latin1_lower s" using assms(1) by (simp add: lowerCaseFacts_def)
  also have "\<dots> = s"
  proof (rule map_idI)
    fix x assume "x \<in> set s"
    with c have "slugChar x" by blast
    from slugChar_bounds [OF this] show "latin1_lower x = x" by (simp add: latin1_lower_def)
  qed
  finally have 1: "lc s = s" .
  have sp: "\<forall>c\<in>set s. \<not> is_space c"
    using c slugChar_bounds is_space_bounds by fastforce
  have 2: "filter (\<lambda>c. is_word c \<or> c = 45) s = s"
    using c slugChar_word by (intro filter_True) blast
  from 1 2 sp collapse_fixed [OF assms(3)] show ?thesis
    by (simp add: slugify_def trim_none replaceRuns_none)
qed


lemma slugify_latin1:
  assumes "lowerCaseFacts lc" "list_all (\<lambda>c. c < 256) s"
  shows "slugify lc s = slugify (map latin1_lower) s"
  using assms by (simp add: slugify_def lowerCaseFacts_def)

lemma lowerCaseFacts_latin1: "lowerCaseFacts (map latin1_lower)"
proof -
  have "\<not> (65 \<le> latin1_lower c \<and> latin1_lower c \<le> 90)" for c
    unfolding latin1_lower_def by (simp split: if_splits)
  then show ?thesis by (simp add: lowerCaseFacts_def list_all_iff)
qed


lemma slugify_examples:
  "slugify (map latin1_lower) (js ''hello   world'') = js ''hello-world''"
  "slugify (map latin1_lower) (js ''caf'' @ [233] @ js '' r'' @ [233] @ js ''sum'' @ [233]) = js ''caf-rsum''"
  "slugify (map latin1_lower) (js ''###'') = []"
  by (simp_all add: slugify_def js_def latin1_lower_def trim_def is_space_def is_word_def)

lemma space_not_word: "is_space c \<Longrightarrow> \<not> is_word c"
  unfolding is_space_def is_word_def by arith

lemma hyphen_not_word: "\<not> is_word 45"
  by (simp add: is_word_def)

lemma replaceRuns_append:
  "b = [] \<or> \<not> p (hd b) \<Longrightarrow> replaceRuns p r (a @ b) = replaceRuns p r a @ replaceRuns p r b"
proof (induction p r a rule: replaceRuns.induct)
  case (1 p r)
  show ?case by simp
next
  case (2 p r c cs)
  show ?case
  proof (cases "p c")
    case False
    with 2 show ?thesis by simp
  next
    case True
    show ?thesis
    proof (cases "\<forall>x\<in>set cs. p x")
      case all: True
      then have d: "dropWhile p cs = []" by simp
      have "dropWhile p (cs @ b) = dropWhile p b" using all by (simp add: dropWhile_append2)
      also have "\<dots> = b" using 2(3) by (cases b) auto
      finally have "replaceRuns p r ((c # cs) @ b) = r @ replaceRuns p r b"
        using True by simp
      moreover have "replaceRuns p r (c # cs) = r @ replaceRuns p r (dropWhile p cs)"
        using True by simp
      then have "replaceRuns p r (c # cs) = r" unfolding d by simp
      ultimately show ?thesis by simp
    next
      case False
      then have "dropWhile p (cs @ b) = dropWhile p cs @ b"
        by (auto simp: dropWhile_append1)
      with 2(1) [OF True 2(3)] True show ?thesis by simp
    qed
  qed
qed

lemma hyphen_in_replaceRuns:
  "45 \<in> set (replaceRuns is_space [45] s) \<longleftrightarrow> (\<exists>x\<in>set s. is_space x \<or> x = 45)"
proof (induction is_space "[45::nat]" s rule: replaceRuns.induct)
  case 1
  show ?case by simp
next
  case (2 c cs)
  show ?case
  proof (cases "is_space c")
    case True
    then show ?thesis by simp
  next
    case False
    with 2(2) show ?thesis by auto
  qed
qed

lemma filter_hyphens:
  assumes "\<forall>x\<in>set t. \<not> is_word x"
  shows "filter (\<lambda>c. is_word c \<or> c = 45) t = replicate (length (filter (\<lambda>c. c = 45) t)) 45"
  using assms by (induction t) auto

lemma run_to_hyphens:
  assumes "\<forall>x\<in>set s. \<not> is_word x"
  shows "\<exists>k. filter (\<lambda>c. is_word c \<or> c = 45) (replaceRuns is_space [45] s) = replicate k 45 \<and>
             (0 < k \<longleftrightarrow> (\<exists>x\<in>set s. is_space x \<or> x = 45))"
proof -
  let ?t = "replaceRuns is_space [45] s"
  have "set ?t \<subseteq> set s \<union> {45}" using set_replaceRuns [of is_space "[45]" s] by simp
  with assms have nw: "\<forall>x\<in>set ?t. \<not> is_word x" using hyphen_not_word by auto
  have "0 < length (filter (\<lambda>c. c = 45) ?t) \<longleftrightarrow> 45 \<in> set ?t"
    by (auto simp: filter_empty_conv)
  with filter_hyphens [OF nw] hyphen_in_replaceRuns [of s] show ?thesis by blast
qed

lemma collapse_cons: "c \<noteq> 45 \<Longrightarrow> collapseHyphens (c # t) = c # collapseHyphens t"
  by (cases t) auto

lemma collapse_hyphens_then:
  assumes "t = [] \<or> hd t \<noteq> 45"
  shows "collapseHyphens (replicate k 45 @ t) = (if 0 < k then [45] else []) @ collapseHyphens t"
proof -
  have one: "collapseHyphens (45 # t) = 45 # collapseHyphens t"
    using assms by (cases t) auto
  have d: "dropWhile (\<lambda>x. x = 45) (replicate j 45 @ t) = t" for j
  proof (induction j)
    case 0
    from assms show ?case by (cases t) auto
  next
    case (Suc j)
    then show ?case by simp
  qed
  show ?thesis
  proof (cases k)
    case 0
    then show ?thesis by simp
  next
    case (Suc j)
    show ?thesis
    proof (cases j)
      case 0
      with Suc one show ?thesis by simp
    next
      case (Suc i)
      with \<open>k = Suc j\<close> have "collapseHyphens (replicate k 45 @ t) =
          45 # collapseHyphens (dropWhile (\<lambda>x. x = 45) (replicate i 45 @ t))" by simp
      with d [of i] \<open>k = Suc j\<close> show ?thesis by simp
    qed
  qed
qed

lemma slug_pipeline_runs:
  "collapseHyphens (filter (\<lambda>c. is_word c \<or> c = 45) (replaceRuns is_space [45] y)) = slugRuns y"
proof (induction y rule: slugRuns.induct)
  case 1
  show ?case by simp
next
  case (2 c cs)
  let ?K = "\<lambda>c. is_word c \<or> c = 45"
  let ?G = "\<lambda>y. filter ?K (replaceRuns is_space [45] y)"
  show ?case
  proof (cases "is_word c")
    case True
    then have ns: "\<not> is_space c" using space_not_word by blast
    have h: "c \<noteq> 45" using True hyphen_not_word by auto
    from True ns have "?G (c # cs) = c # ?G cs" by simp
    with collapse_cons [OF h] 2(1) [OF True] True show ?thesis by simp
  next
    case False
    define run where "run = c # takeWhile (\<lambda>x. \<not> is_word x) cs"
    define rest where "rest = dropWhile (\<lambda>x. \<not> is_word x) cs"
    have y: "c # cs = run @ rest" by (simp add: run_def rest_def)
    have nw: "\<forall>x\<in>set run. \<not> is_word x"
      using False by (auto simp: run_def dest: set_takeWhileD)
    have hd_rest: "rest = [] \<or> is_word (hd rest)"
      unfolding rest_def using hd_dropWhile [of "\<lambda>x. \<not> is_word x" cs] by auto
    then have b: "rest = [] \<or> \<not> is_space (hd rest)" using space_not_word by blast
    have g: "?G (c # cs) = ?G run @ ?G rest"
      unfolding y using replaceRuns_append [where b = rest and p = is_space, OF b] by simp
    from run_to_hyphens [OF nw] obtain k where
      k: "?G run = replicate k 45" "0 < k \<longleftrightarrow> (\<exists>x\<in>set run. is_space x \<or> x = 45)" by blast
    have t: "?G rest = [] \<or> hd (?G rest) \<noteq> 45"
    proof (cases rest)
      case Nil
      then show ?thesis by simp
    next
      case (Cons h r)
      with hd_rest have w: "is_word h" by simp
      then have "\<not> is_space h" using space_not_word by blast
      with w Cons have "?G rest = h # ?G r" by simp
      with w hyphen_not_word show ?thesis by auto
    qed
    have ih: "collapseHyphens (?G rest) = slugRuns rest"
      using 2(2) [OF False] by (simp add: rest_def)
    have "collapseHyphens (?G (c # cs)) = (if 0 < k then [45] else []) @ slugRuns rest"
      unfolding g k(1) using collapse_hyphens_then [OF t] ih by simp
    moreover have "slugRuns (c # cs) =
        (if list_ex (\<lambda>x. is_space x \<or> x = 45) run then [45] else []) @ slugRuns rest"
      using False by (simp add: run_def rest_def)
    ultimately show ?thesis using k(2) by (simp add: list_ex_iff)
  qed
qed

lemma slugify_runs: "slugify lc x = slugRuns (trim (lc x))"
  unfolding slugify_def using slug_pipeline_runs [of "trim (lc x)"] by (simp add: js_def)

lemma word_filter_dropWhile: "filter is_word (dropWhile is_space s) = filter is_word s"
  by (induction s) (auto dest: space_not_word)

lemma word_filter_trim: "filter is_word (trim s) = filter is_word s"
proof -
  have "filter is_word (trim s) = rev (filter is_word (dropWhile is_space (rev (dropWhile is_space s))))"
    by (simp add: trim_def rev_filter)
  also have "\<dots> = rev (filter is_word (rev (dropWhile is_space s)))"
    by (simp only: word_filter_dropWhile)
  also have "\<dots> = filter is_word (dropWhile is_space s)" by (simp add: rev_filter)
  finally show ?thesis by (simp add: word_filter_dropWhile)
qed

lemma word_filter_runs: "filter is_word (slugRuns y) = filter is_word y"
proof (induction y rule: slugRuns.induct)
  case 1
  show ?case by simp
next
  case (2 c cs)
  show ?case
  proof (cases "is_word c")
    case True
    with 2(1) show ?thesis by simp
  next
    case False
    have "filter is_word cs =
        filter is_word (takeWhile (\<lambda>x. \<not> is_word x) cs @ dropWhile (\<lambda>x. \<not> is_word x) cs)"
      by simp
    also have "\<dots> = filter is_word (dropWhile (\<lambda>x. \<not> is_word x) cs)"
      unfolding filter_append by (simp add: filter_empty_conv) (auto dest: set_takeWhileD)
    finally have c: "filter is_word cs = filter is_word (dropWhile (\<lambda>x. \<not> is_word x) cs)" .
    from False 2(2) [OF False] c show ?thesis by (simp add: hyphen_not_word)
  qed
qed

lemma runs_of_words: "list_all is_word y \<Longrightarrow> slugRuns y = y"
  by (induction y) auto

text \<open>
  C8. Given the two facts about the built-in \<open>toLowerCase\<close>, \<open>slugify\<close> is idempotent.
  What it does: on the lower-cased text without the white space at its ends it keeps every
  word character, turns each maximal run of other characters into one hyphen when the run
  holds white space or a hyphen, and drops the run otherwise; so the word characters of
  the result are those of the lower-cased text, in order, and a text of word characters
  only is just lower-cased. Its result holds only lower-case ASCII letters, digits,
  underscores and hyphens, and no two adjacent hyphens. It maps \<open>'hello   world'\<close> to
  \<open>'hello-world'\<close>, \<open>'cafE rEsumE'\<close> (with the code unit U+00E9 for E) to \<open>'caf-rsum'\<close>
  and \<open>'###'\<close> to the empty string.
\<close>

theorem slugify_idempotent:
  assumes "lowerCaseFacts toLowerCase"
  shows "slugify toLowerCase (slugify toLowerCase x) = slugify toLowerCase x \<and>
         slugify toLowerCase x = slugRuns (trim (toLowerCase x)) \<and>
         filter is_word (slugify toLowerCase x) = filter is_word (toLowerCase x) \<and>
         (list_all is_word (toLowerCase x) \<longrightarrow> slugify toLowerCase x = toLowerCase x) \<and>
         list_all slugChar (slugify toLowerCase x) \<and>
         \<not> sublist [45, 45] (slugify toLowerCase x) \<and>
         slugify toLowerCase (js ''hello   world'') = js ''hello-world'' \<and>
         slugify toLowerCase (js ''caf'' @ [233] @ js '' r'' @ [233] @ js ''sum'' @ [233]) =
           js ''caf-rsum'' \<and>
         slugify toLowerCase (js ''###'') = []"
proof -
  have c: "list_all slugChar (slugify toLowerCase x)"
    using assms by (rule slugify_chars)
  have d: "\<not> sublist [45, 45] (slugify toLowerCase x)"
    unfolding slugify_def by (rule collapse_no_double)
  have i: "slugify toLowerCase (slugify toLowerCase x) = slugify toLowerCase x"
    using assms c d by (rule slugify_fixed)
  have r: "slugify toLowerCase x = slugRuns (trim (toLowerCase x))"
    by (rule slugify_runs)
  have w: "filter is_word (slugify toLowerCase x) = filter is_word (toLowerCase x)"
    unfolding r by (simp only: word_filter_runs word_filter_trim)
  have p: "list_all is_word (toLowerCase x) \<longrightarrow> slugify toLowerCase x = toLowerCase x"
  proof
    assume a: "list_all is_word (toLowerCase x)"
    then have "\<forall>c\<in>set (toLowerCase x). \<not> is_space c"
      using space_not_word by (auto simp: list_all_iff)
    then have "trim (toLowerCase x) = toLowerCase x" by (rule trim_none)
    with r runs_of_words [OF a] show "slugify toLowerCase x = toLowerCase x" by simp
  qed
  have e1: "slugify toLowerCase (js ''hello   world'') = js ''hello-world''"
    using slugify_latin1 [OF assms, of "js ''hello   world''"] slugify_examples(1)
    by (simp add: js_def)
  have e2: "slugify toLowerCase (js ''caf'' @ [233] @ js '' r'' @ [233] @ js ''sum'' @ [233]) =
           js ''caf-rsum''"
    using slugify_latin1 [OF assms, of "js ''caf'' @ [233] @ js '' r'' @ [233] @ js ''sum'' @ [233]"]
      slugify_examples(2)
    by (simp add: js_def)
  have e3: "slugify toLowerCase (js ''###'') = []"
    using slugify_latin1 [OF assms, of "js ''###''"] slugify_examples(3)
    by (simp add: js_def)
  from i r w p c d e1 e2 e3 show ?thesis by (intro conjI)
qed

theorem slugify_idempotent_witness:
  "lowerCaseFacts (map latin1_lower) \<and>
   slugify (map latin1_lower) (js ''Hello - World!'') = js ''hello-world'' \<and>
   slugify (map latin1_lower) (slugify (map latin1_lower) (js ''Hello - World!'')) =
     slugify (map latin1_lower) (js ''Hello - World!'') \<and>
   slugRuns (trim (map latin1_lower (js ''Hello - World!''))) = js ''hello-world'' \<and>
   filter is_word (js ''hello-world'') = filter is_word (map latin1_lower (js ''Hello - World!'')) \<and>
   list_all is_word (map latin1_lower (js ''Post_42'')) \<and>
   slugify (map latin1_lower) (js ''Post_42'') = js ''post_42''"
proof -
  have s: "slugify (map latin1_lower) (js ''Hello - World!'') = js ''hello-world''"
    by (simp add: slugify_def js_def latin1_lower_def trim_def is_space_def is_word_def)
  have l: "map latin1_lower (js ''Post_42'') = js ''post_42''"
    by (simp add: js_def latin1_lower_def)
  have a: "list_all is_word (map latin1_lower (js ''Post_42''))"
    unfolding l by (simp add: js_def is_word_def)
  note t = slugify_idempotent [OF lowerCaseFacts_latin1, of "js ''Hello - World!''"]
  note u = slugify_idempotent [OF lowerCaseFacts_latin1, of "js ''Post_42''"]
  from t have "slugify (map latin1_lower) (js ''Hello - World!'') =
      slugRuns (trim (map latin1_lower (js ''Hello - World!'')))" by blast
  with s have 1: "slugRuns (trim (map latin1_lower (js ''Hello - World!''))) = js ''hello-world''"
    by simp
  from t have "filter is_word (slugify (map latin1_lower) (js ''Hello - World!'')) =
      filter is_word (map latin1_lower (js ''Hello - World!''))" by blast
  then have 2: "filter is_word (js ''hello-world'') =
      filter is_word (map latin1_lower (js ''Hello - World!''))" unfolding s .
  from t have 3: "slugify (map latin1_lower) (slugify (map latin1_lower) (js ''Hello - World!'')) =
     slugify (map latin1_lower) (js ''Hello - World!'')" by blast
  from u a have "slugify (map latin1_lower) (js ''Post_42'') = map latin1_lower (js ''Post_42'')"
    by blast
  then have 4: "slugify (map latin1_lower) (js ''Post_42'') = js ''post_42''" unfolding l .
  from lowerCaseFacts_latin1 s 1 2 3 4 a show ?thesis by (intro conjI)
qed

section \<open>Properties of the read time\<close>

























section \<open>Properties of the message lookup\<close>

lemma rejects_iff:
  "rejectsKey messages defaultMsgs key fallback args =
     (key = KeyOther \<or> key = KeyStr (js ''__proto__'') \<or> key = KeyStr (js ''constructor''))"
  unfolding rejectsKey_def messageGetter_def
  by (auto split: msgKey.splits option.splits messageValue.splits list.splits msgArg.splits)

lemma rejected_value:
  assumes "key = KeyOther \<or> key = KeyStr (js ''__proto__'') \<or> key = KeyStr (js ''constructor'')"
  shows "messageGetter messages defaultMsgs key fallback args =
     ([InvalidKey key], MsgStr (orElse fallback (js ''INVALID_KEY'')))"
  using assms unfolding messageGetter_def by auto

lemma prototype_key:
  assumes "messages (js ''prototype'') = None" "defaultMsgs (js ''prototype'') = None"
  shows "messageGetter messages defaultMsgs (KeyStr (js ''prototype'')) fallback args =
     ([], MsgStr (orElse fallback (js ''prototype'')))"
  using assms unfolding messageGetter_def by (simp add: js_def)

text \<open>
  C10 (as amended). The getter rejects (logs the invalid-key warning and returns the
  fallback or the sentinel \<open>'INVALID_KEY'\<close>) exactly the keys that are no strings and the
  keys \<open>'__proto__'\<close> and \<open>'constructor'\<close>. The key \<open>'prototype'\<close> is not rejected: when it
  is absent from the user messages and from the default messages, the getter logs nothing
  and returns the fallback when a non-empty one is given, and the key itself otherwise
  (also for the empty string as fallback).
\<close>

theorem message_getter_keys:
  "rejectsKey messages defaultMsgs key fallback args =
     (key = KeyOther \<or> key = KeyStr (js ''__proto__'') \<or> key = KeyStr (js ''constructor'')) \<and>
   (rejectsKey messages defaultMsgs key fallback args \<longrightarrow>
      messageGetter messages defaultMsgs key fallback args =
        ([InvalidKey key], MsgStr (orElse fallback (js ''INVALID_KEY'')))) \<and>
   \<not> rejectsKey messages defaultMsgs (KeyStr (js ''prototype'')) fallback args \<and>
   (messages (js ''prototype'') = None \<and> defaultMsgs (js ''prototype'') = None \<longrightarrow>
      messageGetter messages defaultMsgs (KeyStr (js ''prototype'')) fallback args =
        ([], MsgStr (case fallback of
                       None \<Rightarrow> js ''prototype''
                     | Some f \<Rightarrow> if f = [] then js ''prototype'' else f)))"
proof -
  have 1: "rejectsKey messages defaultMsgs key fallback args =
     (key = KeyOther \<or> key = KeyStr (js ''__proto__'') \<or> key = KeyStr (js ''constructor''))"
    by (rule rejects_iff)
  have 2: "rejectsKey messages defaultMsgs key fallback args \<longrightarrow>
      messageGetter messages defaultMsgs key fallback args =
        ([InvalidKey key], MsgStr (orElse fallback (js ''INVALID_KEY'')))"
    using rejected_value by (simp add: rejects_iff)
  have 3: "\<not> rejectsKey messages defaultMsgs (KeyStr (js ''prototype'')) fallback args"
    by (simp add: rejects_iff js_def)
  have 4: "messages (js ''prototype'') = None \<and> defaultMsgs (js ''prototype'') = None \<longrightarrow>
      messageGetter messages defaultMsgs (KeyStr (js ''prototype'')) fallback args =
        ([], MsgStr (case fallback of
                       None \<Rightarrow> js ''prototype''
                     | Some f \<Rightarrow> if f = [] then js ''prototype'' else f))"
    using prototype_key [of messages defaultMsgs fallback args] by (simp add: orElse_def)
  from 1 2 3 4 show ?thesis by (intro conjI)
qed

theorem message_getter_keys_witness:
  "rejectsKey (\<lambda>k. None) (\<lambda>k. None) (KeyStr (js ''constructor'')) (Some (js ''fb'')) [] \<and>
   messageGetter (\<lambda>k. None) (\<lambda>k. None) (KeyStr (js ''constructor'')) (Some (js ''fb'')) [] =
     ([InvalidKey (KeyStr (js ''constructor''))], MsgStr (js ''fb'')) \<and>
   messageGetter (\<lambda>k. None) (\<lambda>k. None) (KeyStr (js ''prototype'')) (Some (js ''fb'')) [] =
     ([], MsgStr (js ''fb''))"
proof -
  note a = message_getter_keys [of "\<lambda>k. None" "\<lambda>k. None" "KeyStr (js ''constructor'')" "Some (js ''fb'')" "[]"]
  from a have r: "rejectsKey (\<lambda>k. None) (\<lambda>k. None) (KeyStr (js ''constructor'')) (Some (js ''fb'')) []"
    by simp
  with a have v: "messageGetter (\<lambda>k. None) (\<lambda>k. None) (KeyStr (js ''constructor'')) (Some (js ''fb'')) [] =
     ([InvalidKey (KeyStr (js ''constructor''))], MsgStr (js ''fb''))"
    by (simp add: orElse_def js_def)
  from a have p: "messageGetter (\<lambda>k. None) (\<lambda>k. None) (KeyStr (js ''prototype'')) (Some (js ''fb'')) [] =
     ([], MsgStr (js ''fb''))"
    by (simp add: js_def)
  from r v p show ?thesis by simp
qed

text \<open>
  The claim as stated fails for the empty string as fallback: \<open>fallback || key\<close> returns
  the key \<open>'prototype'\<close>, not the fallback that was given.
\<close>

theorem message_getter_keys_counterexample:
  "messageGetter (\<lambda>k. None) (\<lambda>k. None) (KeyStr (js ''prototype'')) (Some []) [] =
     ([], MsgStr (js ''prototype'')) \<and>
   MsgStr (js ''prototype'') \<noteq> MsgStr []"
  by (simp add: messageGetter_def orElse_def js_def)



section \<open>Properties of the configuration merge\<close>

lemma safe_not_proto: "isSafeKey key \<Longrightarrow> key \<noteq> js ''__proto__''"
  by (auto simp: isSafeKey_def)

lemma jsSet_safe:
  assumes "isSafeKey key"
  shows "\<exists>props'. jsSet (JObject p props) key v = JObject p props' \<and>
           map_of props' = (map_of props)(key \<mapsto> v)"
proof (cases "map_of props key")
  case None
  have "map_of (props @ [(key, v)]) = (map_of props)(key \<mapsto> v)"
    using None by (auto simp: map_add_def fun_eq_iff split: option.splits)
  with None safe_not_proto [OF assms] show ?thesis by simp
next
  case (Some a)
  then show ?thesis by (simp add: update_conv')
qed

lemma protoGet_receiver:
  "key \<noteq> js ''__proto__'' \<Longrightarrow> protoGet p obj key = protoGet p obj' key"
proof (induction p arbitrary: obj obj' rule: reachesProtoSetter.induct)
  case (2 p props)
  then show ?case by (simp split: option.splits)
qed simp_all

lemma jsGet_cong:
  assumes "key \<noteq> js ''__proto__''" "map_of props key = map_of props' key"
  shows "jsGet (JObject p props) key = jsGet (JObject p props') key"
  using assms protoGet_receiver [of key p "JObject p props" "JObject p props'"]
  by (simp split: option.splits)

lemma mergeKeys_props:
  assumes "distinct (map fst entries)"
  shows "\<exists>props'. mergeKeys entries (JObject p props) = JObject p props' \<and>
     (\<forall>key. map_of props' key =
        (case map_of entries key of
           None \<Rightarrow> map_of props key
         | Some sv \<Rightarrow> if isSafeKey key
                      then Some (mergedValue (jsGet (JObject p props) key) sv)
                      else map_of props key))"
  using assms
proof (induction entries arbitrary: props)
  case Nil
  then show ?case by simp
next
  case (Cons e rest)
  obtain k sv where e: "e = (k, sv)" by (cases e)
  from Cons.prems e have d: "distinct (map fst rest)" and nk: "map_of rest k = None"
    by (auto simp: map_of_eq_None_iff)
  show ?case
  proof (cases "isSafeKey k")
    case False
    from Cons.IH [OF d, of props] obtain props' where
      p: "mergeKeys rest (JObject p props) = JObject p props'"
        "\<forall>key. map_of props' key =
        (case map_of rest key of
           None \<Rightarrow> map_of props key
         | Some sv \<Rightarrow> if isSafeKey key
                      then Some (mergedValue (jsGet (JObject p props) key) sv)
                      else map_of props key)" by blast
    have "mergeKeys (e # rest) (JObject p props) = JObject p props'"
      using False e p(1) by simp
    moreover have "\<forall>key. map_of props' key =
        (case map_of (e # rest) key of
           None \<Rightarrow> map_of props key
         | Some sv \<Rightarrow> if isSafeKey key
                      then Some (mergedValue (jsGet (JObject p props) key) sv)
                      else map_of props key)"
      using p(2) False e nk by auto
    ultimately show ?thesis by blast
  next
    case True
    define mv where "mv = mergedValue (jsGet (JObject p props) k) sv"
    from jsSet_safe [OF True, of p props mv] obtain props1 where
      s: "jsSet (JObject p props) k mv = JObject p props1"
         "map_of props1 = (map_of props)(k \<mapsto> mv)" by blast
    have "mergeKeys (e # rest) (JObject p props) = mergeKeys rest (jsSet (JObject p props) k mv)"
      using True e by (simp add: mv_def mergedValue_def Let_def del: jsSet.simps jsGet.simps)
    then have step: "mergeKeys (e # rest) (JObject p props) = mergeKeys rest (JObject p props1)"
      by (simp only: s(1))
    from Cons.IH [OF d, of props1] obtain props' where
      p: "mergeKeys rest (JObject p props1) = JObject p props'"
        "\<forall>key. map_of props' key =
        (case map_of rest key of
           None \<Rightarrow> map_of props1 key
         | Some sv \<Rightarrow> if isSafeKey key
                      then Some (mergedValue (jsGet (JObject p props1) key) sv)
                      else map_of props1 key)" by blast
    have "map_of props' key =
        (case map_of (e # rest) key of
           None \<Rightarrow> map_of props key
         | Some sv \<Rightarrow> if isSafeKey key
                      then Some (mergedValue (jsGet (JObject p props) key) sv)
                      else map_of props key)" for key
    proof (cases "key = k")
      case eq: True
      with p(2) nk s(2) True e show ?thesis by (simp add: mv_def)
    next
      case ne: False
      then have m: "map_of props1 key = map_of props key" using s(2) by simp
      have g: "isSafeKey key \<Longrightarrow> jsGet (JObject p props1) key = jsGet (JObject p props) key"
        using jsGet_cong [OF safe_not_proto m] by simp
      from p(2) ne e m g show ?thesis by (auto split: option.splits)
    qed
    with step p(1) show ?thesis by auto
  qed
qed

lemma mergeKeys_unsafe:
  "\<exists>props'. mergeKeys entries (JObject p props) = JObject p props' \<and>
     (\<forall>key. \<not> isSafeKey key \<longrightarrow> map_of props' key = map_of props key)"
proof (induction entries arbitrary: props)
  case Nil
  then show ?case by simp
next
  case (Cons e rest)
  obtain k sv where e: "e = (k, sv)" by (cases e)
  show ?case
  proof (cases "isSafeKey k")
    case False
    with Cons.IH [of props] e show ?thesis by simp
  next
    case True
    define mv where "mv = mergedValue (jsGet (JObject p props) k) sv"
    from jsSet_safe [OF True, of p props mv] obtain props1 where
      s: "jsSet (JObject p props) k mv = JObject p props1"
         "map_of props1 = (map_of props)(k \<mapsto> mv)" by blast
    have "mergeKeys (e # rest) (JObject p props) = mergeKeys rest (jsSet (JObject p props) k mv)"
      using True e by (simp add: mv_def mergedValue_def Let_def del: jsSet.simps jsGet.simps)
    then have step: "mergeKeys (e # rest) (JObject p props) = mergeKeys rest (JObject p props1)"
      by (simp only: s(1))
    from Cons.IH [of props1] obtain props' where
      p: "mergeKeys rest (JObject p props1) = JObject p props'"
        "\<forall>key. \<not> isSafeKey key \<longrightarrow> map_of props' key = map_of props1 key" by blast
    have "\<forall>key. \<not> isSafeKey key \<longrightarrow> map_of props' key = map_of props key"
      using p(2) s(2) True by auto
    with step p(1) show ?thesis by auto
  qed
qed

lemma merge_unsafe:
  "protoOf (secureDeepMerge target source) = Some ObjectPrototype \<and>
   (\<not> isSafeKey key \<longrightarrow> ownProp (secureDeepMerge target source) key = map_of target key)"
proof (cases "\<exists>p entries. source = JObject p entries")
  case True
  then obtain sp entries where s: "source = JObject sp entries" by blast
  from mergeKeys_unsafe [of entries ObjectPrototype target] obtain props' where
    "mergeKeys entries (JObject ObjectPrototype target) = JObject ObjectPrototype props'"
    "\<forall>key. \<not> isSafeKey key \<longrightarrow> map_of props' key = map_of target key" by blast
  with s show ?thesis by (simp add: ownProp_def)
next
  case False
  then show ?thesis by (cases source) (simp_all add: ownProp_def)
qed


lemma merge_props:
  assumes "distinct (map fst entries)"
  shows "ownProp (secureDeepMerge target (JObject sp entries)) key =
     (case map_of entries key of
        None \<Rightarrow> map_of target key
      | Some sv \<Rightarrow> if isSafeKey key
                   then Some (mergedValue (jsGet (JObject ObjectPrototype target) key) sv)
                   else map_of target key)"
proof -
  from mergeKeys_props [OF assms, of ObjectPrototype target] obtain props' where
    "mergeKeys entries (JObject ObjectPrototype target) = JObject ObjectPrototype props'"
    "\<forall>key. map_of props' key =
        (case map_of entries key of
           None \<Rightarrow> map_of target key
         | Some sv \<Rightarrow> if isSafeKey key
                      then Some (mergedValue (jsGet (JObject ObjectPrototype target) key) sv)
                      else map_of target key)" by blast
  then show ?thesis by (simp add: ownProp_def)
qed

lemma merged_nested:
  assumes "isPlainObject sourceValue"
  shows "protoOf (mergedValue targetValue sourceValue) = Some ObjectPrototype \<and>
     (\<not> isSafeKey key \<longrightarrow>
        ownProp (mergedValue targetValue sourceValue) key =
          (if isPlainObject targetValue then ownProp targetValue key else None))"
  using assms
    merge_unsafe [of "if isPlainObject targetValue then ownProps targetValue else []" sourceValue key]
  by (simp add: mergedValue_def ownProp_def)

text \<open>
  Without the guard the assignment would replace the prototype: the model of the
  assignment has the \<open>__proto__\<close> setter.
\<close>

lemma unguarded_assignment_pollutes:
  "protoOf (jsSet (JObject ObjectPrototype []) (js ''__proto__'')
      (JObject ObjectPrototype [(js ''polluted'', JBool True)])) =
     Some (Proto (JObject ObjectPrototype [(js ''polluted'', JBool True)]))"
  by simp

text \<open>
  C9. \<open>secureDeepMerge\<close> skips the overlay keys \<open>__proto__\<close>, \<open>constructor\<close> and
  \<open>prototype\<close>: the own property of the result at such a key is the one of the base (absent
  when the base has none), whatever the overlay holds there, and the prototype of the
  result is \<open>Object.prototype\<close>, whatever the overlay is. At every other key of an overlay
  object the result holds the overlay's value, or, for an overlay value that is a plain
  object, the merge of the base's value there with it; that nested result again has the
  prototype \<open>Object.prototype\<close> and, at the three keys, the own properties of the base's
  nested object: the same holds at every level of the recursion.
\<close>

theorem secure_merge_skips_dangerous_keys:
  "isSafeKey key =
     (key \<noteq> js ''__proto__'' \<and> key \<noteq> js ''constructor'' \<and> key \<noteq> js ''prototype'') \<and>
   protoOf (secureDeepMerge target source) = Some ObjectPrototype \<and>
   (\<not> isSafeKey key \<longrightarrow> ownProp (secureDeepMerge target source) key = map_of target key) \<and>
   (distinct (map fst entries) \<longrightarrow>
      ownProp (secureDeepMerge target (JObject sp entries)) key =
        (case map_of entries key of
           None \<Rightarrow> map_of target key
         | Some sv \<Rightarrow> if isSafeKey key
                      then Some (mergedValue (jsGet (JObject ObjectPrototype target) key) sv)
                      else map_of target key)) \<and>
   (isPlainObject sourceValue \<longrightarrow>
      protoOf (mergedValue targetValue sourceValue) = Some ObjectPrototype \<and>
      (\<not> isSafeKey key \<longrightarrow>
         ownProp (mergedValue targetValue sourceValue) key =
           (if isPlainObject targetValue then ownProp targetValue key else None)))"
proof -
  have 1: "isSafeKey key =
     (key \<noteq> js ''__proto__'' \<and> key \<noteq> js ''constructor'' \<and> key \<noteq> js ''prototype'')"
    by (simp add: isSafeKey_def)
  note 2 = merge_unsafe [of target source key]
  have 3: "distinct (map fst entries) \<longrightarrow>
      ownProp (secureDeepMerge target (JObject sp entries)) key =
        (case map_of entries key of
           None \<Rightarrow> map_of target key
         | Some sv \<Rightarrow> if isSafeKey key
                      then Some (mergedValue (jsGet (JObject ObjectPrototype target) key) sv)
                      else map_of target key)"
    using merge_props by blast
  have 4: "isPlainObject sourceValue \<longrightarrow>
      protoOf (mergedValue targetValue sourceValue) = Some ObjectPrototype \<and>
      (\<not> isSafeKey key \<longrightarrow>
         ownProp (mergedValue targetValue sourceValue) key =
           (if isPlainObject targetValue then ownProp targetValue key else None))"
    using merged_nested by blast
  from 1 2 3 4 show ?thesis by (intro conjI) blast+
qed

lemma evil_merge:
  "secureDeepMerge baseRecord evilOverlay =
     JObject ObjectPrototype
       [(js ''name'', JString (js ''New'')),
        (js ''constructor'', JString (js ''base'')),
        (js ''theme'', JObject ObjectPrototype
           [(js ''prototype'', JNumber 1), (js ''color'', JString (js ''red''))])]"
  by (simp add: baseRecord_def evilOverlay_def isSafeKey_def isPlainObject_def js_def Let_def)

theorem secure_merge_skips_dangerous_keys_witness:
  "\<not> isSafeKey (js ''constructor'') \<and>
   ownProp (secureDeepMerge baseRecord evilOverlay) (js ''constructor'') =
     Some (JString (js ''base'')) \<and>
   protoOf (secureDeepMerge baseRecord evilOverlay) = Some ObjectPrototype \<and>
   ownProp (secureDeepMerge baseRecord evilOverlay) (js ''theme'') =
     Some (JObject ObjectPrototype
       [(js ''prototype'', JNumber 1), (js ''color'', JString (js ''red''))])"
proof -
  have u: "\<not> isSafeKey (js ''constructor'')" by (simp add: isSafeKey_def)
  have b: "map_of baseRecord (js ''constructor'') = Some (JString (js ''base''))"
    by (simp add: baseRecord_def js_def)
  from secure_merge_skips_dangerous_keys [of "js ''constructor''" baseRecord evilOverlay] u b
  have "ownProp (secureDeepMerge baseRecord evilOverlay) (js ''constructor'') =
     Some (JString (js ''base''))"
    and "protoOf (secureDeepMerge baseRecord evilOverlay) = Some ObjectPrototype"
    by simp_all
  moreover have "ownProp (secureDeepMerge baseRecord evilOverlay) (js ''theme'') =
     Some (JObject ObjectPrototype
       [(js ''prototype'', JNumber 1), (js ''color'', JString (js ''red''))])"
    by (simp add: evil_merge ownProp_def js_def)
  ultimately show ?thesis using u by simp
qed



section \<open>Properties of the post pipeline\<close>






















section \<open>Properties of the route loaders\<close>

text \<open>
  The test host resolves to two posts, neither of which carries a category or a tag.
\<close>

lemma testHost_posts:
  "\<exists>allPosts cache'.
     getAllPosts testConfig testHost 0 0
       \<lparr>opt_lang = Some (js ''en''), includeContent = None, includeLocalizedVersions = None\<rparr>
       Map.empty = (Inr allPosts, cache') \<and> length allPosts = 2 \<and>
     list_all (\<lambda>p. categories (fm p) = None \<and> category (fm p) = None \<and> tags (fm p) = None) allPosts"
proof -
  have p: "parseDate testHost (js ''2024-01-15'') = Some 1705276800000"
    "parseDate testHost (js ''2024-02-20'') = Some 1708387200000"
    "parseDate testHost (js ''not a date'') = None"
    by (simp_all add: testHost_def js_def)
  have f: "blogPostFiles testHost =
        [(js ''@blog/2024/01/hello-world.md'',
          Resolves (Some (emptyFm\<lparr>title := Some (js ''Hello''), date := Some (js ''2024-01-15'')\<rparr>))),
         (js ''@blog/2024/02/custom.md'',
          Resolves (Some (emptyFm\<lparr>title := Some (js ''Custom''), date := Some (js ''2024-02-20''),
             slug := Some (js ''my-slug'')\<rparr>))),
         (js ''@blog/bad.md'',
          Resolves (Some (emptyFm\<lparr>title := Some (js ''Bad''), date := Some (js ''not a date'')\<rparr>))),
         (js ''@blog/none.md'', Resolves (Some (emptyFm\<lparr>title := Some (js ''None'')\<rparr>)))]"
    by (simp add: testHost_def)
  have d: "date (emptyFm\<lparr>title := Some (js ''Hello''), date := Some (js ''2024-01-15'')\<rparr>) = Some (js ''2024-01-15'')"
    "date (emptyFm\<lparr>title := Some (js ''Custom''), date := Some (js ''2024-02-20''),
             slug := Some (js ''my-slug'')\<rparr>) = Some (js ''2024-02-20'')"
    "date (emptyFm\<lparr>title := Some (js ''Bad''), date := Some (js ''not a date'')\<rparr>) = Some (js ''not a date'')"
    "date (emptyFm\<lparr>title := Some (js ''None'')\<rparr>) = None"
    by (simp_all add: emptyFm_def)
  have ne: "js ''2024-01-15'' \<noteq> []" "js ''2024-02-20'' \<noteq> []" "js ''not a date'' \<noteq> []"
    by (simp_all add: js_def)
  show ?thesis
    unfolding getAllPosts_def
    by (simp add: Let_def f processModule_def d p ne orElse_def sortPosts_def postTime_def emptyFm_def)
qed

text \<open>
  The fallback of \<open>getOriginalTaxonomyName\<close> is the slug, so its result is empty only for
  an empty slug, and the loaders return for every slug that is non-empty in lower case.
\<close>

lemma getOriginalTaxonomyName_nonempty:
  assumes "s \<noteq> []"
  shows "getOriginalTaxonomyName posts extractorFn s slugifyFn \<noteq> []"
  using assms unfolding getOriginalTaxonomyName_def orElse_def
  by (simp split: option.splits)

lemma categoryPage_returns:
  assumes "toLowerCase (stripTrailingSlash p) \<noteq> []"
  shows "\<exists>page. categoryPage toLowerCase allPosts categoryDescriptions p lng = Inr page"
  using getOriginalTaxonomyName_nonempty [OF assms]
  unfolding categoryPage_def Let_def by simp

lemma tagPage_returns:
  assumes "toLowerCase (stripTrailingSlash p) \<noteq> []"
  shows "\<exists>page. tagPage toLowerCase allPosts p lng = Inr page"
  using getOriginalTaxonomyName_nonempty [OF assms]
  unfolding tagPage_def Let_def by simp

lemma noTaxonomy_category_filter:
  assumes "list_all noTaxonomy ps"
  shows "filterPostsByCategory ps s f = []"
  using assms unfolding filterPostsByCategory_def noTaxonomy_def
  by (induction ps) simp_all

lemma noTaxonomy_tag_filter:
  assumes "list_all noTaxonomy ps"
  shows "filterPostsByTag ps s f = []"
  using assms unfolding filterPostsByTag_def noTaxonomy_def
  by (induction ps) simp_all

lemma noTaxonomy_terms:
  assumes "list_all noTaxonomy ps"
  shows "concat (map getPostCategories ps) = [] \<and> concat (map getPostTags ps) = []"
  using assms unfolding noTaxonomy_def getPostCategories_def getPostTags_def
  by (induction ps) simp_all

lemma noTaxonomy_canonical:
  assumes "list_all noTaxonomy ps"
  shows "\<not> canonicalTermExists ps getPostCategories s f \<and> \<not> canonicalTermExists ps getPostTags s f"
  using assms unfolding noTaxonomy_def canonicalTermExists_def getPostCategories_def getPostTags_def
  by (induction ps) simp_all

lemma nonexistent_slug:
  "stripTrailingSlash (js ''nonexistent'') = js ''nonexistent''"
  "map latin1_lower (js ''nonexistent'') = js ''nonexistent''"
  "js ''nonexistent'' \<noteq> []"
  by (simp_all add: stripTrailingSlash_def js_def latin1_lower_def)

text \<open>
  Claim C2 (unknown slugs). On the test host no post matches the slug \<open>nonexistent\<close> and
  no term of any post slugifies to it, yet \<open>loadCategory\<close> and \<open>loadTag\<close> both return page
  data, with an empty post list and the slug itself as the name, where a 404 is described:
  \<open>getOriginalTaxonomyName\<close> falls back to the slug, so the test \<open>!originalCategory\<close> of the
  loaders holds for no slug that is non-empty in lower case.
\<close>

theorem loaders_return_for_unknown_slug:
  "(case fst (loadCategory testConfig testHost 0 0 (map latin1_lower) Map.empty
               (js ''nonexistent'') (js ''en'') Map.empty) of
      Inl e \<Rightarrow> False
    | Inr page \<Rightarrow>
        category_posts page = [] \<and> category_name page = js ''nonexistent'' \<and>
        length (category_allPosts page) = 2 \<and>
        \<not> canonicalTermExists (category_allPosts page) getPostCategories (js ''nonexistent'')
             (slugify (map latin1_lower))) \<and>
   (case fst (loadTag testConfig testHost 0 0 (map latin1_lower)
               (js ''nonexistent'') (js ''en'') Map.empty) of
      Inl e \<Rightarrow> False
    | Inr page \<Rightarrow>
        tag_posts page = [] \<and> tag_name page = js ''nonexistent'' \<and>
        length (tag_allPosts page) = 2 \<and>
        \<not> canonicalTermExists (tag_allPosts page) getPostTags (js ''nonexistent'')
             (slugify (map latin1_lower)))"
proof -
  obtain allPosts cache' where g: "getAllPosts testConfig testHost 0 0
       \<lparr>opt_lang = Some (js ''en''), includeContent = None, includeLocalizedVersions = None\<rparr>
       Map.empty = (Inr allPosts, cache')"
    and n: "length allPosts = 2" and t: "list_all noTaxonomy allPosts"
    using testHost_posts unfolding noTaxonomy_def by blast
  note f = noTaxonomy_category_filter [OF t] noTaxonomy_tag_filter [OF t]
    noTaxonomy_terms [OF t] noTaxonomy_canonical [OF t]
  have c: "categoryPage (map latin1_lower) allPosts Map.empty (js ''nonexistent'') (js ''en'') =
      Inr \<lparr>category_posts = [], category_allPosts = allPosts,
           category_name = js ''nonexistent'', currentCategory = js ''nonexistent'',
           categoryDescription = None, categoryImage = None, categoryImageAlt = None,
           category_lang = js ''en''\<rparr>"
    unfolding categoryPage_def Let_def nonexistent_slug
    by (simp add: f getOriginalTaxonomyName_def orElse_def nonexistent_slug orNull_def)
  have d: "tagPage (map latin1_lower) allPosts (js ''nonexistent'') (js ''en'') =
      Inr \<lparr>tag_posts = [], tag_allPosts = allPosts,
           tag_name = js ''nonexistent'', currentTag = js ''nonexistent'',
           tag_lang = js ''en''\<rparr>"
    unfolding tagPage_def Let_def nonexistent_slug
    by (simp add: f getOriginalTaxonomyName_def orElse_def nonexistent_slug)
  show ?thesis
    unfolding loadCategory_def loadTag_def
    by (simp add: nonexistent_slug g c d n f)
qed


end
